(* ===== verification/Prelude.thy ===== *)
theory Prelude
  imports Main "HOL-Library.Multiset" "HOL-Library.List_Lexorder" "HOL-Library.Char_ord"
begin

text \<open>
  What every component of the model shares: Go error values and results, Go maps as
  association lists with distinct keys, wrap-around of 64-bit integers, the collections of
  simplification rules the proofs use, and the two generic interfaces (an encoding with its
  decoder, a strict weak order with its stable sort).

  Byte strings and Go strings are both \<open>string\<close> (lists of \<open>char\<close>, one \<open>char\<close> per byte).
\<close>

named_theorems res_simps \<open>when a bind, a check or a lookup of results succeeds\<close>
named_theorems map_simps \<open>lookup and update of association lists\<close>

section \<open>Error values\<close>

text \<open>
  An error is its construction: \<open>Errorf fmt args\<close> is \<open>fmt.Errorf\<close> or
  \<open>errors.New\<close> with the format left unexpanded, an argument \<open>AErr e\<close> is what
  the verb \<open>%w\<close> wraps. The typed errors the source inspects with \<open>errors.Is\<close>
  and \<open>errors.As\<close> are constructors of their own; an error made by a library call is
  \<open>ErrLib\<close> (the call, what it was about). \<open>Panic\<close> is a run-time panic (an index out of
  range, a random number below zero): the properties show where it cannot happen.
\<close>

datatype gerr =
    Errorf string "garg list"
  | ErrNotExist string
  | ErrLib string string
  | MismatchError string "string list" "string list"
  | NeedsAuthorizationError string string
  | ECHRejectionError string
  | ErrJoin "gerr list"
  | Panic string
and garg = AStr string | AInt int | AStrs "string list" | AErr gerr

text \<open>
  \<open>errors.Is (err, os.ErrNotExist)\<close> and the two uses of \<open>errors.As\<close> walk the
  tree of wrapped errors.
\<close>

fun is_not_exist :: "gerr \<Rightarrow> bool"
  and arg_not_exist :: "garg \<Rightarrow> bool" where
  "is_not_exist (ErrNotExist p) = True"
| "is_not_exist (Errorf f as) = list_ex arg_not_exist as"
| "is_not_exist (ErrJoin es) = list_ex is_not_exist es"
| "is_not_exist _ = False"
| "arg_not_exist (AErr e) = is_not_exist e"
| "arg_not_exist _ = False"

text \<open>The first error of the tree a selector accepts, depth first as \<open>errors.As\<close> does.\<close>

fun first_some :: "'b option list \<Rightarrow> 'b option" where
  "first_some [] = None"
| "first_some (None # xs) = first_some xs"
| "first_some (Some x # xs) = Some x"

fun as_needs_auth :: "gerr \<Rightarrow> (string \<times> string) option"
  and arg_needs_auth :: "garg \<Rightarrow> (string \<times> string) option" where
  "as_needs_auth (NeedsAuthorizationError t u) = Some (t, u)"
| "as_needs_auth (Errorf f as) = first_some (map arg_needs_auth as)"
| "as_needs_auth (ErrJoin es) = first_some (map as_needs_auth es)"
| "as_needs_auth _ = None"
| "arg_needs_auth (AErr e) = as_needs_auth e"
| "arg_needs_auth _ = None"

fun as_ech_rejection :: "gerr \<Rightarrow> string option"
  and arg_ech_rejection :: "garg \<Rightarrow> string option" where
  "as_ech_rejection (ECHRejectionError c) = Some c"
| "as_ech_rejection (Errorf f as) = first_some (map arg_ech_rejection as)"
| "as_ech_rejection (ErrJoin es) = first_some (map as_ech_rejection es)"
| "as_ech_rejection _ = None"
| "arg_ech_rejection (AErr e) = as_ech_rejection e"
| "arg_ech_rejection _ = None"

section \<open>Results\<close>

type_synonym 'a result = "gerr + 'a"

text \<open>\<open>if err != nil { return err }\<close> followed by the rest of the function.\<close>

definition rbind :: "'a result \<Rightarrow> ('a \<Rightarrow> 'b result) \<Rightarrow> 'b result" where
  "rbind r f = (case r of Inl e \<Rightarrow> Inl e | Inr x \<Rightarrow> f x)"

text \<open>\<open>if err != nil { return fmt.Errorf("...: %w", ..., err) }\<close>: the error is wrapped.\<close>

definition rwrap :: "(gerr \<Rightarrow> gerr) \<Rightarrow> 'a result \<Rightarrow> 'a result" where
  "rwrap w r = (case r of Inl e \<Rightarrow> Inl (w e) | Inr x \<Rightarrow> Inr x)"

text \<open>\<open>if c { return err }\<close>\<close>

definition rcheck :: "bool \<Rightarrow> gerr \<Rightarrow> unit result" where
  "rcheck c e = (if c then Inr () else Inl e)"

fun is_ok :: "'a result \<Rightarrow> bool" where
  "is_ok (Inr _) = True"
| "is_ok (Inl _) = False"

lemma is_ok_iff [res_simps]: "is_ok r \<longleftrightarrow> (\<exists>x. r = Inr x)"
  by (cases r) auto

lemma rbind_Inr [res_simps]: "rbind r f = Inr y \<longleftrightarrow> (\<exists>x. r = Inr x \<and> f x = Inr y)"
  by (auto simp: rbind_def split: sum.splits)

lemma rbind_Inl [res_simps]:
  "rbind r f = Inl e \<longleftrightarrow> r = Inl e \<or> (\<exists>x. r = Inr x \<and> f x = Inl e)"
  by (auto simp: rbind_def split: sum.splits)

lemma rbind_simps [simp]: "rbind (Inl e) f = Inl e" "rbind (Inr x) f = f x"
  by (simp_all add: rbind_def)

lemma rwrap_simps [simp]: "rwrap w (Inl e) = Inl (w e)" "rwrap w (Inr x) = Inr x"
  by (simp_all add: rwrap_def)

lemma rwrap_Inr [res_simps]: "rwrap w r = Inr y \<longleftrightarrow> r = Inr y"
  by (auto simp: rwrap_def split: sum.splits)

lemma rwrap_Inl [res_simps]: "rwrap w r = Inl e \<longleftrightarrow> (\<exists>e'. r = Inl e' \<and> e = w e')"
  by (auto simp: rwrap_def split: sum.splits)

lemma rcheck_simps [simp]: "rcheck True e = Inr ()" "rcheck False e = Inl e"
  by (simp_all add: rcheck_def)

lemma rcheck_Inr [res_simps]: "rcheck c e = Inr u \<longleftrightarrow> c"
  by (auto simp: rcheck_def)

lemma rcheck_Inl [res_simps]: "rcheck c e = Inl e' \<longleftrightarrow> \<not> c \<and> e' = e"
  by (auto simp: rcheck_def)

text \<open>A loop that checks each element and returns at the first error.\<close>

fun for_each :: "('a \<Rightarrow> unit result) \<Rightarrow> 'a list \<Rightarrow> unit result" where
  "for_each f [] = Inr ()"
| "for_each f (x # xs) = rbind (f x) (\<lambda>_. for_each f xs)"

lemma for_each_ok [res_simps]: "for_each f xs = Inr u \<longleftrightarrow> (\<forall>x\<in>set xs. f x = Inr ())"
  by (induction xs) (auto simp: res_simps)

text \<open>A step that returns a result and changes a state, followed by another when it succeeded.\<close>

definition wbind :: "'a result \<times> 'w \<Rightarrow> ('a \<Rightarrow> 'w \<Rightarrow> 'b result \<times> 'w) \<Rightarrow> 'b result \<times> 'w" where
  "wbind m f = (case m of (Inl e, w) \<Rightarrow> (Inl e, w) | (Inr x, w) \<Rightarrow> f x w)"

lemma wbind_simps [simp]: "wbind (Inl e, w) f = (Inl e, w)" "wbind (Inr x, w) f = f x w"
  by (simp_all add: wbind_def)

lemma wbind_Inr [res_simps]: "wbind m f = (Inr y, w') \<longleftrightarrow> (\<exists>x w. m = (Inr x, w) \<and> f x w = (Inr y, w'))"
  by (auto simp: wbind_def split: prod.splits sum.splits)

lemma wbind_Inl [res_simps]:
  "wbind m f = (Inl e, w') \<longleftrightarrow> m = (Inl e, w') \<or> (\<exists>x w. m = (Inr x, w) \<and> f x w = (Inl e, w'))"
  by (auto simp: wbind_def split: prod.splits sum.splits)

section \<open>64-bit integers\<close>

text \<open>Go's \<open>int\<close>, \<open>int64\<close> and \<open>time.Duration\<close> wrap around in two's complement.\<close>

definition wrap64 :: "int \<Rightarrow> int" where
  "wrap64 x = (x + 2 ^ 63) mod 2 ^ 64 - 2 ^ 63"

definition in64 :: "int \<Rightarrow> bool" where
  "in64 x \<longleftrightarrow> - (2 ^ 63) \<le> x \<and> x < 2 ^ 63"

lemma wrap64_id: "in64 x \<Longrightarrow> wrap64 x = x"
  by (simp add: wrap64_def in64_def)

lemma in64_wrap64 [simp]: "in64 (wrap64 x)"
proof -
  have "0 \<le> (x + 2 ^ 63) mod 2 ^ 64" "(x + 2 ^ 63) mod 2 ^ 64 < 2 ^ 64"
    by simp_all
  then show ?thesis by (simp add: wrap64_def in64_def)
qed

text \<open>Go's integer division truncates towards zero.\<close>

definition go_div :: "int \<Rightarrow> int \<Rightarrow> int" where
  "go_div a b = sgn a * sgn b * (\<bar>a\<bar> div \<bar>b\<bar>)"

lemma go_div_nonneg: "0 \<le> a \<Longrightarrow> 0 < b \<Longrightarrow> go_div a b = a div b"
  by (cases "a = 0") (auto simp: go_div_def)

section \<open>Go maps\<close>

text \<open>
  A Go map is an association list with its keys in strictly increasing order, so that two
  maps with the same entries are equal; \<open>map_of\<close> looks a key up. Where the source ranges
  over a map the result is sorted or an existence check, so Go's random order does not show,
  and \<open>encoding/json\<close> prints maps in this order.
\<close>

type_synonym ('k, 'v) gomap = "('k \<times> 'v) list"

fun mput :: "'k :: linorder \<Rightarrow> 'v \<Rightarrow> ('k, 'v) gomap \<Rightarrow> ('k, 'v) gomap" where
  "mput k v [] = [(k, v)]"
| "mput k v ((k', v') # m) =
     (if k < k' then (k, v) # (k', v') # m
      else if k = k' then (k, v) # m
      else (k', v') # mput k v m)"

definition mkeys :: "('k, 'v) gomap \<Rightarrow> 'k list" where
  "mkeys m = map fst m"

definition mhas :: "('k, 'v) gomap \<Rightarrow> 'k \<Rightarrow> bool" where
  "mhas m k \<longleftrightarrow> map_of m k \<noteq> None"

definition map_ok :: "('k :: linorder, 'v) gomap \<Rightarrow> bool" where
  "map_ok m \<longleftrightarrow> sorted_wrt (<) (mkeys m)"

lemma mkeys_simps [map_simps, simp]: "mkeys [] = []" "mkeys ((k, v) # m) = k # mkeys m"
  by (simp_all add: mkeys_def)

lemma set_mkeys_mput [map_simps, simp]: "set (mkeys (mput k v m)) = insert k (set (mkeys m))"
  by (induction k v m rule: mput.induct) auto

lemma map_ok_Nil [map_simps, simp]: "map_ok []"
  by (simp add: map_ok_def mkeys_def)

lemma map_ok_Cons: "map_ok ((k, v) # m) \<longleftrightarrow> (\<forall>k' \<in> set (mkeys m). k < k') \<and> map_ok m"
  by (simp add: map_ok_def mkeys_def)

lemma map_ok_distinct: "map_ok m \<Longrightarrow> distinct (mkeys m)"
  by (simp add: map_ok_def strict_sorted_iff)

lemma map_ok_sorted: "map_ok m \<Longrightarrow> sorted (mkeys m)"
  by (simp add: map_ok_def strict_sorted_imp_sorted)

lemma map_ok_mput [map_simps, simp]: "map_ok m \<Longrightarrow> map_ok (mput k v m)"
  by (induction k v m rule: mput.induct) (auto simp: map_ok_Cons intro: less_trans)

lemma map_of_mput [map_simps, simp]: "map_of (mput k v m) = (map_of m)(k \<mapsto> v)"
  by (induction k v m rule: mput.induct) (auto simp: fun_eq_iff)

text \<open>The representation is canonical.\<close>

lemma gomap_eqI: "map_ok m \<Longrightarrow> map_ok n \<Longrightarrow> map_of m = map_of n \<Longrightarrow> m = n"
proof -
  assume ok: "map_ok m" "map_ok n" and eq: "map_of m = map_of n"
  have "set m = set n"
    using ok eq by (simp add: map_of_inject_set [symmetric] map_ok_distinct mkeys_def [symmetric])
  moreover have "distinct m" "distinct n" "inj_on fst (set m)" "inj_on fst (set n)"
    using ok map_ok_distinct by (auto simp: mkeys_def distinct_map)
  ultimately show ?thesis
    using ok map_ok_sorted [of m] map_ok_sorted [of n]
    by (intro map_sorted_distinct_set_unique [of fst]) (auto simp: mkeys_def distinct_map)
qed

lemma set_mput: "x \<in> set (mput k v m) \<Longrightarrow> x = (k, v) \<or> x \<in> set m"
  by (induction k v m rule: mput.induct) (auto split: if_splits)

lemma mput_last: "\<forall>k' \<in> set (mkeys m). k' < k \<Longrightarrow> mput k v m = m @ [(k, v)]"
  by (induction k v m rule: mput.induct) (auto simp: mkeys_def)

lemma mkeys_iff [map_simps]: "k \<in> set (mkeys m) \<longleftrightarrow> map_of m k \<noteq> None"
  by (metis domIff dom_map_of_conv_image_fst image_set mkeys_def)

lemma mhas_iff [map_simps]: "mhas m k \<longleftrightarrow> k \<in> set (mkeys m)"
  by (simp add: mhas_def mkeys_iff)

lemma mhas_mput [map_simps]: "mhas (mput k v m) k' \<longleftrightarrow> k' = k \<or> mhas m k'"
  by (auto simp: mhas_def)

text \<open>Two maps with the same keys, and related values under each.\<close>

definition rel_map_of :: "('v \<Rightarrow> 'w \<Rightarrow> bool) \<Rightarrow> ('k, 'v) gomap \<Rightarrow> ('k, 'w) gomap \<Rightarrow> bool" where
  "rel_map_of R m n \<longleftrightarrow> (\<forall>k. rel_option R (map_of m k) (map_of n k))"

lemma rel_map_of_Nil [simp]: "rel_map_of R [] []"
  by (simp add: rel_map_of_def)

lemma rel_map_of_keys:
  "rel_map_of R m n \<longleftrightarrow> set (mkeys m) = set (mkeys n) \<and>
     (\<forall>k v w. map_of m k = Some v \<longrightarrow> map_of n k = Some w \<longrightarrow> R v w)"
proof -
  have "rel_option R (map_of m k) (map_of n k) \<longleftrightarrow> (map_of m k \<noteq> None \<longleftrightarrow> map_of n k \<noteq> None) \<and>
      (\<forall>v w. map_of m k = Some v \<longrightarrow> map_of n k = Some w \<longrightarrow> R v w)" for k
    by (cases "map_of m k"; cases "map_of n k") simp_all
  then show ?thesis
    unfolding rel_map_of_def set_eq_iff mkeys_iff by blast
qed

text \<open>
  \<open>for _, x := range xs { m[f x] = g x }\<close>: the last element with a key wins.
\<close>

definition mput_all :: "('a \<Rightarrow> 'k :: linorder) \<Rightarrow> ('a \<Rightarrow> 'v) \<Rightarrow> 'a list \<Rightarrow> ('k, 'v) gomap \<Rightarrow> ('k, 'v) gomap" where
  "mput_all f g xs m = foldl (\<lambda>m x. mput (f x) (g x) m) m xs"

lemma map_of_mput_all [map_simps]:
  "map_of (mput_all f g xs m) = map_of m ++ map_of (rev (map (\<lambda>x. (f x, g x)) xs))"
proof (induction xs arbitrary: m)
  case Nil
  then show ?case by (simp add: mput_all_def)
next
  case (Cons x xs)
  have "map_of (mput_all f g (x # xs) m) = map_of (mput_all f g xs (mput (f x) (g x) m))"
    by (simp add: mput_all_def)
  also have "\<dots> = (map_of m)(f x \<mapsto> g x) ++ map_of (rev (map (\<lambda>x. (f x, g x)) xs))"
    by (simp only: Cons map_of_mput)
  also have "\<dots> = map_of m ++ map_of (rev (map (\<lambda>x. (f x, g x)) (x # xs)))"
    by (rule ext) (simp add: map_add_def split: option.split)
  finally show ?case .
qed

lemma map_ok_mput_all [map_simps, simp]: "map_ok m \<Longrightarrow> map_ok (mput_all f g xs m)"
  by (induction xs arbitrary: m) (simp_all add: mput_all_def)

lemma set_mkeys_mput_all [map_simps]:
  "set (mkeys (mput_all f g xs m)) = set (mkeys m) \<union> f ` set xs"
  by (induction xs arbitrary: m) (auto simp: mput_all_def)

section \<open>Lists\<close>

text \<open>\<open>slices.Sorted\<close>, \<open>slices.Sort\<close> and \<open>sort.Strings\<close> on strings, by bytes.\<close>

lemma sort_eq_iff_mset: "sort xs = sort ys \<longleftrightarrow> mset xs = mset ys"
  by (metis mset_sort properties_for_sort sorted_sort)

lemma filter_eq_Nil_iff: "filter P xs = [] \<longleftrightarrow> (\<forall>x\<in>set xs. \<not> P x)"
  by (induction xs) auto

lemma sort_eq_Nil_iff [simp]: "sort xs = [] \<longleftrightarrow> xs = ([] :: 'a :: linorder list)"
  by (metis length_0_conv length_sort)

lemma find_index: "find P xs = Some x \<longleftrightarrow>
    (\<exists>i < length xs. xs ! i = x \<and> P x \<and> (\<forall>j < i. \<not> P (xs ! j)))"
  by (auto simp: find_Some_iff)

section \<open>Interfaces shared by several components\<close>

subsection \<open>An encoding and its decoder\<close>

text \<open>
  What a client of an encoding relies on: a value that satisfies \<open>good\<close> is decoded to
  itself.
\<close>

locale codec =
  fixes enc :: "'a \<Rightarrow> 'b"
    and dec :: "'b \<Rightarrow> 'a option"
    and good :: "'a \<Rightarrow> bool"
  assumes dec_enc: "good x \<Longrightarrow> dec (enc x) = Some x"
begin

lemma enc_inject: "good x \<Longrightarrow> good y \<Longrightarrow> enc x = enc y \<longleftrightarrow> x = y"
  by (metis dec_enc option.inject)

lemma dec_enc_unique: "good x \<Longrightarrow> dec (enc x) = Some y \<longleftrightarrow> y = x"
  by (auto simp: dec_enc)

end

subsection \<open>A strict weak order and the stable sort by it\<close>

text \<open>
  \<open>sort.SliceStable\<close> takes a \<open>less\<close> function. Stable insertion by it is the reference
  for what the library's sort returns: a stable sort by a strict weak order is unique.
\<close>

fun insert_by :: "('a \<Rightarrow> 'a \<Rightarrow> bool) \<Rightarrow> 'a \<Rightarrow> 'a list \<Rightarrow> 'a list" where
  "insert_by lt x [] = [x]"
| "insert_by lt x (y # ys) = (if lt y x then y # insert_by lt x ys else x # y # ys)"

fun stable_sort :: "('a \<Rightarrow> 'a \<Rightarrow> bool) \<Rightarrow> 'a list \<Rightarrow> 'a list" where
  "stable_sort lt [] = []"
| "stable_sort lt (x # xs) = insert_by lt x (stable_sort lt xs)"

lemma mset_insert_by [simp]: "mset (insert_by lt x ys) = {#x#} + mset ys"
  by (induction ys) auto

lemma mset_stable_sort [simp]: "mset (stable_sort lt xs) = mset xs"
  by (induction xs) auto

lemma set_insert_by [simp]: "set (insert_by lt x ys) = insert x (set ys)"
  by (induction ys) auto

lemma set_stable_sort [simp]: "set (stable_sort lt xs) = set xs"
  by (metis mset_stable_sort set_mset_mset)

lemma length_stable_sort [simp]: "length (stable_sort lt xs) = length xs"
  by (metis mset_stable_sort size_mset)

locale strict_weak_order =
  fixes lt :: "'a \<Rightarrow> 'a \<Rightarrow> bool"
  assumes asym: "lt x y \<Longrightarrow> \<not> lt y x"
    and neg_trans: "lt x z \<Longrightarrow> lt x y \<or> lt y z"
begin

lemma irrefl: "\<not> lt x x"
  using asym by blast

lemma trans: "lt x y \<Longrightarrow> lt y z \<Longrightarrow> lt x z"
  using asym neg_trans by blast

lemma not_less_trans: "\<not> lt y x \<Longrightarrow> \<not> lt z y \<Longrightarrow> \<not> lt z x"
  using neg_trans by blast

lemma sorted_insert_by:
  "sorted_wrt (\<lambda>a b. \<not> lt b a) ys \<Longrightarrow> sorted_wrt (\<lambda>a b. \<not> lt b a) (insert_by lt x ys)"
proof (induction ys)
  case Nil
  then show ?case by simp
next
  case (Cons y ys)
  then show ?case
    by (auto dest: asym not_less_trans)
qed

lemma sorted_stable_sort: "sorted_wrt (\<lambda>a b. \<not> lt b a) (stable_sort lt xs)"
  by (induction xs) (auto intro: sorted_insert_by)

text \<open>Elements the order does not separate keep their places relative to each other.\<close>

lemma insert_by_class:
  assumes "\<And>y. P y \<Longrightarrow> \<not> lt y x"
  shows "P x \<Longrightarrow> filter P (insert_by lt x ys) = x # filter P ys"
  using assms by (induction ys) auto

lemma insert_by_other: "\<not> P x \<Longrightarrow> filter P (insert_by lt x ys) = filter P ys"
  by (induction ys) auto

lemma stable_sort_stable:
  "filter (\<lambda>b. \<not> lt a b \<and> \<not> lt b a) (stable_sort lt xs)
    = filter (\<lambda>b. \<not> lt a b \<and> \<not> lt b a) xs"
proof (induction xs)
  case Nil
  then show ?case by simp
next
  case (Cons x xs)
  let ?P = "\<lambda>b. \<not> lt a b \<and> \<not> lt b a"
  show ?case
  proof (cases "?P x")
    case True
    have "\<not> lt y x" if "?P y" for y
      using that True not_less_trans by blast
    then have "filter ?P (insert_by lt x (stable_sort lt xs))
        = x # filter ?P (stable_sort lt xs)"
      using True by (intro insert_by_class) auto
    then show ?thesis using Cons True by simp
  next
    case False
    then have "filter ?P (insert_by lt x (stable_sort lt xs))
        = filter ?P (stable_sort lt xs)"
      by (rule insert_by_other)
    then show ?thesis using Cons False by auto
  qed
qed

lemma head_least: "y \<in> set xs \<Longrightarrow> \<not> lt y (hd (stable_sort lt xs))"
proof -
  assume y: "y \<in> set xs"
  obtain z zs where eq: "stable_sort lt xs = z # zs"
    using y by (cases "stable_sort lt xs") (auto dest: arg_cong [where f = set])
  have "sorted_wrt (\<lambda>a b. \<not> lt b a) (z # zs)"
    using sorted_stable_sort [of xs] by (simp add: eq)
  moreover have "y \<in> set (z # zs)"
    using y set_stable_sort [of lt xs] by (simp add: eq)
  ultimately show ?thesis by (auto simp: eq irrefl)
qed

end

end
