(* ===== verification/GoBase64.thy ===== *)
theory GoBase64
  imports GoStrings
begin

text \<open>
  Go's \<open>encoding/base64\<close>: the four encodings the program uses (standard or URL alphabet,
  padded or raw), the encoder and the non-strict decoder, which skips CR and LF and ignores
  the unused low bits of the last character. Each encoding is an instance of the interface
  \<open>codec\<close>; besides, no encoding decodes another one's text to different bytes.
\<close>

datatype b64 = B64 (url_alphabet: bool) (padded: bool)

abbreviation "RawURLEncoding \<equiv> B64 True False"
abbreviation "URLEncoding \<equiv> B64 True True"
abbreviation "RawStdEncoding \<equiv> B64 False False"
abbreviation "StdEncoding \<equiv> B64 False True"

definition b64_char :: "bool \<Rightarrow> nat \<Rightarrow> char" where
  "b64_char url n =
     (if n < 26 then char_of (65 + n)
      else if n < 52 then char_of (71 + n)
      else if n < 62 then char_of (n - 4)
      else if n = 62 then (if url then CHR ''-'' else CHR ''+'')
      else (if url then CHR ''_'' else CHR ''/''))"

definition b64_val :: "bool \<Rightarrow> char \<Rightarrow> nat option" where
  "b64_val url c =
     (let v = of_char c :: nat
      in if 65 \<le> v \<and> v \<le> 90 then Some (v - 65)
         else if 97 \<le> v \<and> v \<le> 122 then Some (v - 71)
         else if 48 \<le> v \<and> v \<le> 57 then Some (v + 4)
         else if c = (if url then CHR ''-'' else CHR ''+'') then Some 62
         else if c = (if url then CHR ''_'' else CHR ''/'') then Some 63
         else None)"

abbreviation pad_char :: char where "pad_char \<equiv> CHR ''=''"

text \<open>Three bytes as four 6-bit values, and back.\<close>

definition sextet1 :: "char \<Rightarrow> nat" where "sextet1 a = of_char a div 4"
definition sextet2 :: "char \<Rightarrow> nat \<Rightarrow> nat" where "sextet2 a b = of_char a mod 4 * 16 + b div 16"
definition sextet3 :: "nat \<Rightarrow> nat \<Rightarrow> nat" where "sextet3 b c = b mod 16 * 4 + c div 64"
definition sextet4 :: "char \<Rightarrow> nat" where "sextet4 c = of_char c mod 64"

definition byte1 :: "nat \<Rightarrow> nat \<Rightarrow> char" where "byte1 x y = char_of (x * 4 + y div 16)"
definition byte2 :: "nat \<Rightarrow> nat \<Rightarrow> char" where "byte2 y z = char_of (y mod 16 * 16 + z div 4)"
definition byte3 :: "nat \<Rightarrow> nat \<Rightarrow> char" where "byte3 z w = char_of (z mod 4 * 64 + w)"

fun b64_encode :: "b64 \<Rightarrow> string \<Rightarrow> string" where
  "b64_encode e [] = []"
| "b64_encode e [a] =
     map (b64_char (url_alphabet e)) [sextet1 a, sextet2 a 0]
       @ (if padded e then [pad_char, pad_char] else [])"
| "b64_encode e [a, b] =
     map (b64_char (url_alphabet e)) [sextet1 a, sextet2 a (of_char b), sextet3 (of_char b) 0]
       @ (if padded e then [pad_char] else [])"
| "b64_encode e (a # b # c # s) =
     map (b64_char (url_alphabet e))
         [sextet1 a, sextet2 a (of_char b), sextet3 (of_char b) (of_char c), sextet4 c]
       @ b64_encode e s"

definition decode2 :: "bool \<Rightarrow> char \<Rightarrow> char \<Rightarrow> string option" where
  "decode2 u x y =
     Option.bind (b64_val u x) (\<lambda>x. Option.bind (b64_val u y) (\<lambda>y. Some [byte1 x y]))"

definition decode3 :: "bool \<Rightarrow> char \<Rightarrow> char \<Rightarrow> char \<Rightarrow> string option" where
  "decode3 u x y z =
     Option.bind (b64_val u x) (\<lambda>x. Option.bind (b64_val u y) (\<lambda>y.
     Option.bind (b64_val u z) (\<lambda>z. Some [byte1 x y, byte2 y z])))"

definition decode4 :: "bool \<Rightarrow> char \<Rightarrow> char \<Rightarrow> char \<Rightarrow> char \<Rightarrow> string option" where
  "decode4 u x y z w =
     Option.bind (b64_val u x) (\<lambda>x. Option.bind (b64_val u y) (\<lambda>y.
     Option.bind (b64_val u z) (\<lambda>z. Option.bind (b64_val u w) (\<lambda>w.
       Some [byte1 x y, byte2 y z, byte3 z w]))))"

text \<open>Quantum by quantum, on text without line breaks.\<close>

fun b64_quanta :: "b64 \<Rightarrow> string \<Rightarrow> string option" where
  "b64_quanta e [] = Some []"
| "b64_quanta e [x] = None"
| "b64_quanta e [x, y] = (if padded e then None else decode2 (url_alphabet e) x y)"
| "b64_quanta e [x, y, z] = (if padded e then None else decode3 (url_alphabet e) x y z)"
| "b64_quanta e (x # y # z # w # s) =
     (if padded e \<and> w = pad_char then
        (if s \<noteq> [] then None
         else if z = pad_char then decode2 (url_alphabet e) x y
         else decode3 (url_alphabet e) x y z)
      else Option.bind (decode4 (url_alphabet e) x y z w)
             (\<lambda>q. Option.bind (b64_quanta e s) (\<lambda>r. Some (q @ r))))"

definition line_break :: "char \<Rightarrow> bool" where
  "line_break c \<longleftrightarrow> c = CHR 0x0A \<or> c = CHR 0x0D"

definition b64_decode :: "b64 \<Rightarrow> string \<Rightarrow> string option" where
  "b64_decode e s = b64_quanta e (filter (\<lambda>c. \<not> line_break c) s)"

section \<open>Bytes and sextets\<close>

lemma of_char_less [simp]: "(of_char c :: nat) < 256"
  by (rule nat_of_char_less_256)

lemma sextet_bounds [simp]:
  "sextet1 a < 64" "b < 256 \<Longrightarrow> sextet2 a b < 64" "c < 256 \<Longrightarrow> sextet3 b c < 64" "sextet4 d < 64"
proof -
  show "sextet1 a < 64"
    using of_char_less [of a] by (simp add: sextet1_def less_mult_imp_div_less)
  show "sextet4 d < 64" by (simp add: sextet4_def)
  have "m mod 4 * 16 + k < 64" if "k < 16" for m k :: nat
    using that mod_less_divisor [of 4 m] by linarith
  moreover have "b div 16 < 16" if "b < 256"
    using that by (simp add: less_mult_imp_div_less)
  ultimately show "sextet2 a b < 64" if "b < 256"
    using that by (simp add: sextet2_def)
  have "m mod 16 * 4 + k < 64" if "k < 4" for m k :: nat
    using that mod_less_divisor [of 16 m] by linarith
  moreover have "c div 64 < 4" if "c < 256"
    using that by (simp add: less_mult_imp_div_less)
  ultimately show "sextet3 b c < 64" if "c < 256"
    using that by (simp add: sextet3_def)
qed

lemma byte1_sextet: "b < 256 \<Longrightarrow> byte1 (sextet1 a) (sextet2 a b) = a"
proof -
  assume "b < 256"
  then have "b div 16 < 16" by (simp add: less_mult_imp_div_less)
  then have "(of_char a mod 4 * 16 + b div 16) div 16 = (of_char a mod 4 :: nat)"
    by simp
  then show ?thesis by (simp add: byte1_def sextet1_def sextet2_def)
qed

lemma byte2_sextet: "c < 256 \<Longrightarrow> byte2 (sextet2 a (of_char b)) (sextet3 (of_char b) c) = b"
proof -
  assume "c < 256"
  then have "c div 64 < 4" by (simp add: less_mult_imp_div_less)
  then have "(of_char b mod 16 * 4 + c div 64) div 4 = (of_char b mod 16 :: nat)"
    by simp
  moreover have "of_char b div 16 < (16 :: nat)"
    using of_char_less [of b] by (simp add: less_mult_imp_div_less)
  then have "(of_char a mod 4 * 16 + of_char b div 16) mod 16 = (of_char b div 16 :: nat)"
    by simp
  ultimately show ?thesis by (simp add: byte2_def sextet2_def sextet3_def)
qed

lemma byte3_sextet: "byte3 (sextet3 b (of_char c)) (sextet4 c) = c"
proof -
  have "of_char c div 64 < (4 :: nat)"
    using of_char_less [of c] by (simp add: less_mult_imp_div_less)
  then have "(b mod 16 * 4 + of_char c div 64) mod 4 = (of_char c div 64 :: nat)"
    by (metis mod_less mod_mult_self3)
  then show ?thesis by (simp add: byte3_def sextet3_def sextet4_def)
qed

lemmas byte_sextet [simp] = byte1_sextet byte2_sextet byte3_sextet

section \<open>Characters\<close>

lemma b64_char_val: "n < 64 \<Longrightarrow> b64_val u (b64_char u n) = Some n"
  by (auto simp: b64_val_def b64_char_def Let_def)

lemma b64_char_val_other: "n < 64 \<Longrightarrow> b64_val u' (b64_char u n) \<in> {None, Some n}"
  by (auto simp: b64_val_def b64_char_def Let_def)

lemma b64_char_special [simp]:
  "n < 64 \<Longrightarrow> b64_char u n \<noteq> pad_char" "n < 64 \<Longrightarrow> \<not> line_break (b64_char u n)"
  by (auto simp: b64_char_def line_break_def char_of_eq_iff take_bit_nat_eq_self)

lemma pad_char_val [simp]: "b64_val u pad_char = None" "\<not> line_break pad_char"
  by (auto simp: b64_val_def line_break_def)

section \<open>Round trips\<close>

lemma b64_encode_clean: "c \<in> set (b64_encode e s) \<Longrightarrow> \<not> line_break c"
  by (induction e s rule: b64_encode.induct) (auto split: if_splits)

lemma b64_decode_encode_eq: "b64_decode e' (b64_encode e s) = b64_quanta e' (b64_encode e s)"
proof -
  have "filter (\<lambda>c. \<not> line_break c) (b64_encode e s) = b64_encode e s"
    by (rule filter_True) (auto dest: b64_encode_clean)
  then show ?thesis by (simp add: b64_decode_def)
qed

text \<open>Each group decodes to itself, in its own alphabet; in the other one, to itself or not at all.\<close>

lemma decode_own:
  "decode2 u (b64_char u (sextet1 a)) (b64_char u (sextet2 a 0)) = Some [a]"
  "decode3 u (b64_char u (sextet1 a)) (b64_char u (sextet2 a (of_char b)))
     (b64_char u (sextet3 (of_char b) 0)) = Some [a, b]"
  "decode4 u (b64_char u (sextet1 a)) (b64_char u (sextet2 a (of_char b)))
     (b64_char u (sextet3 (of_char b) (of_char c))) (b64_char u (sextet4 c)) = Some [a, b, c]"
  by (simp_all add: decode2_def decode3_def decode4_def b64_char_val)

lemma b64_val_cases:
  assumes "n < 64"
  obtains "b64_val u' (b64_char u n) = None" | "b64_val u' (b64_char u n) = Some n"
  using b64_char_val_other [OF assms, of u' u] by auto

lemma decode_other:
  "decode2 u' (b64_char u (sextet1 a)) (b64_char u (sextet2 a 0)) \<in> {None, Some [a]}"
  "decode3 u' (b64_char u (sextet1 a)) (b64_char u (sextet2 a (of_char b)))
     (b64_char u (sextet3 (of_char b) 0)) \<in> {None, Some [a, b]}"
  "decode4 u' (b64_char u (sextet1 a)) (b64_char u (sextet2 a (of_char b)))
     (b64_char u (sextet3 (of_char b) (of_char c))) (b64_char u (sextet4 c)) \<in> {None, Some [a, b, c]}"
  using b64_char_val_other [of "sextet1 a" u' u] b64_char_val_other [of "sextet2 a 0" u' u]
    b64_char_val_other [of "sextet2 a (of_char b)" u' u]
    b64_char_val_other [of "sextet3 (of_char b) 0" u' u]
    b64_char_val_other [of "sextet3 (of_char b) (of_char c)" u' u]
    b64_char_val_other [of "sextet4 c" u' u]
  by (auto simp: decode2_def decode3_def decode4_def)

lemma b64_quanta_own: "b64_quanta e (b64_encode e s) = Some s"
proof (induction e s rule: b64_encode.induct)
  case (4 e a b c s)
  then show ?case by (simp add: decode_own)
qed (auto simp: decode_own)

lemma b64_quanta_other: "b64_quanta e' (b64_encode e s) \<in> {None, Some s}"
proof (induction e s rule: b64_encode.induct)
  case (1 e)
  then show ?case by simp
next
  case (2 e a)
  then show ?case
    using decode_other(1) [of "url_alphabet e'" "url_alphabet e" a] by (auto simp: decode4_def)
next
  case (3 e a b)
  then show ?case
    using decode_other(2) [of "url_alphabet e'" "url_alphabet e" a b] by (auto simp: decode4_def)
next
  case (4 e a b c s)
  then show ?case
    using decode_other(3) [of "url_alphabet e'" "url_alphabet e" a b c] by auto
qed

lemma b64_roundtrip: "b64_decode e (b64_encode e s) = Some s"
  by (simp add: b64_decode_encode_eq b64_quanta_own)

lemma b64_cross: "b64_decode e' (b64_encode e s) = Some t \<Longrightarrow> t = s"
  using b64_quanta_other [of e' e s] by (auto simp: b64_decode_encode_eq)

interpretation base64: codec "b64_encode e" "b64_decode e" "\<lambda>s. True" for e
  by unfold_locales (simp add: b64_roundtrip)

section \<open>Lengths\<close>

lemma length_b64_encode_raw: "\<not> padded e \<Longrightarrow> length (b64_encode e s) = (4 * length s + 2) div 3"
  by (induction e s rule: b64_encode.induct) (auto simp: add_mult_distrib2)

lemma length_b64_encode_padded: "padded e \<Longrightarrow> length (b64_encode e s) = (length s + 2) div 3 * 4"
proof (induction e s rule: b64_encode.induct)
  case (4 e a b c s)
  have "(5 + n) div 3 = Suc (Suc (Suc n) div 3)" for n :: nat
    by presburger
  with 4 show ?case by simp
qed auto

lemma b64_encode_Nil_iff [simp]: "b64_encode e s = [] \<longleftrightarrow> s = []"
  by (induction e s rule: b64_encode.induct) auto

text \<open>What an encoder puts out is printable ASCII without white space.\<close>

lemma plain_b64_char: "n < 64 \<Longrightarrow> plain_char (b64_char u n)"
  by (auto simp: b64_char_def plain_char_def less_eq_char_def take_bit_nat_eq_self)

lemma plain_pad_char: "plain_char pad_char"
  by (simp add: plain_char_def less_eq_char_def)

lemma b64_encode_plain: "c \<in> set (b64_encode e s) \<Longrightarrow> plain_char c"
  by (induction e s rule: b64_encode.induct)
    (auto simp: plain_b64_char plain_pad_char split: if_splits)

end
