(* ===== verification/GoUTF8.thy ===== *)
theory GoUTF8
  imports GoStrings
begin

text \<open>
  UTF-8 as Go's \<open>unicode/utf8\<close> reads it: the length of the valid sequence a string starts
  with, the encoding of a code point, and the strings that are valid UTF-8 throughout.
\<close>

abbreviation code :: "char \<Rightarrow> nat" where "code c \<equiv> of_char c"

definition cont :: "char \<Rightarrow> bool" where
  "cont c \<longleftrightarrow> 128 \<le> code c \<and> code c \<le> 191"

definition second_ok3 :: "char \<Rightarrow> char \<Rightarrow> bool" where
  "second_ok3 a b \<longleftrightarrow>
     (if code a = 224 then 160 \<le> code b \<and> code b \<le> 191
      else if code a = 237 then 128 \<le> code b \<and> code b \<le> 159 else cont b)"

definition second_ok4 :: "char \<Rightarrow> char \<Rightarrow> bool" where
  "second_ok4 a b \<longleftrightarrow>
     (if code a = 240 then 144 \<le> code b \<and> code b \<le> 191
      else if code a = 244 then 128 \<le> code b \<and> code b \<le> 143 else cont b)"

text \<open>0 stands for an invalid byte, which \<open>DecodeRune\<close> reports as width 1, U+FFFD.\<close>

fun utf8_len :: "string \<Rightarrow> nat" where
  "utf8_len [] = 0"
| "utf8_len (a # s) =
     (if code a < 128 then 1
      else if 194 \<le> code a \<and> code a \<le> 223 then
        (case s of b # _ \<Rightarrow> if cont b then 2 else 0 | _ \<Rightarrow> 0)
      else if 224 \<le> code a \<and> code a \<le> 239 then
        (case s of b # c # _ \<Rightarrow> if second_ok3 a b \<and> cont c then 3 else 0 | _ \<Rightarrow> 0)
      else if 240 \<le> code a \<and> code a \<le> 244 then
        (case s of b # c # d # _ \<Rightarrow> if second_ok4 a b \<and> cont c \<and> cont d then 4 else 0 | _ \<Rightarrow> 0)
      else 0)"

lemma utf8_len_le: "utf8_len s \<le> length s"
  by (cases s) (auto split: list.splits)

lemma utf8_len_append: "utf8_len s \<noteq> 0 \<Longrightarrow> utf8_len (s @ t) = utf8_len s"
  by (cases s) (auto split: list.splits)

text \<open>The four shapes of a valid sequence.\<close>

lemma utf8_len_cases:
  assumes "utf8_len s \<noteq> 0"
  obtains (1) a t where "s = a # t" "utf8_len s = 1" "code a < 128"
  | (2) a b t where "s = a # b # t" "utf8_len s = 2" "194 \<le> code a" "code a \<le> 223" "cont b"
  | (3) a b c t where "s = a # b # c # t" "utf8_len s = 3" "224 \<le> code a" "code a \<le> 239"
      "second_ok3 a b" "cont c"
  | (4) a b c d t where "s = a # b # c # d # t" "utf8_len s = 4" "240 \<le> code a" "code a \<le> 244"
      "second_ok4 a b" "cont c" "cont d"
proof (cases s)
  case Nil
  with assms show ?thesis by simp
next
  case (Cons a t)
  consider "code a < 128" | "194 \<le> code a" "code a \<le> 223" | "224 \<le> code a" "code a \<le> 239"
    | "240 \<le> code a" "code a \<le> 244"
    using assms Cons by (force split: if_splits)
  then show ?thesis
  proof cases
    case 1
    with Cons show ?thesis by (intro that(1)) auto
  next
    case 2
    with assms Cons obtain b u where "t = b # u" "cont b"
      by (cases t) (auto split: if_splits)
    with 2 Cons show ?thesis by (intro that(2) [of a b u]) simp_all
  next
    case 3
    with assms Cons obtain b c u where "t = b # c # u" "second_ok3 a b" "cont c"
      by (cases t; cases "tl t") (auto split: if_splits)
    with 3 Cons show ?thesis by (intro that(3) [of a b c u]) simp_all
  next
    case 4
    with assms Cons obtain b c d u where "t = b # c # d # u" "second_ok4 a b" "cont c" "cont d"
      by (cases t; cases "tl t"; cases "tl (tl t)") (auto split: if_splits)
    with 4 Cons show ?thesis by (intro that(4) [of a b c d u]) simp_all
  qed
qed

lemma utf8_len_take: "utf8_len s \<noteq> 0 \<Longrightarrow> utf8_len (take (utf8_len s) s) = utf8_len s"
  by (erule utf8_len_cases) (simp_all add: numeral_eq_Suc)

text \<open>The bytes of a multi-byte sequence are all above the ASCII range.\<close>

lemma utf8_len_high:
  assumes "128 \<le> code a" "x \<in> set (take (utf8_len (a # s)) (a # s))"
  shows "128 \<le> code x"
proof -
  have "utf8_len (a # s) \<noteq> 0"
    using assms(2) by (metis empty_iff list.set(1) take0)
  then show ?thesis
    using assms
    by (cases rule: utf8_len_cases)
      (auto simp: numeral_eq_Suc cont_def second_ok3_def second_ok4_def split: if_splits)
qed

definition encode_rune :: "nat \<Rightarrow> string" where
  "encode_rune r =
     (if r < 128 then [char_of r]
      else if r < 2048 then [char_of (192 + r div 64), char_of (128 + r mod 64)]
      else if r < 65536 then
        [char_of (224 + r div 4096), char_of (128 + r div 64 mod 64), char_of (128 + r mod 64)]
      else [char_of (240 + r div 262144), char_of (128 + r div 4096 mod 64),
            char_of (128 + r div 64 mod 64), char_of (128 + r mod 64)])"

definition replacement :: string where
  "replacement = [CHR 0xEF, CHR 0xBF, CHR 0xBD]"

function (sequential) valid_utf8 :: "string \<Rightarrow> bool" where
  "valid_utf8 [] = True"
| "valid_utf8 (a # s) =
     (if utf8_len (a # s) = 0 then False else valid_utf8 (drop (utf8_len (a # s)) (a # s)))"
  by pat_completeness auto
termination
  by (relation "measure length") (simp_all del: utf8_len.simps)

declare valid_utf8.simps [simp del]

lemma valid_utf8_Nil [simp]: "valid_utf8 []"
  by (simp add: valid_utf8.simps)

lemma valid_utf8_ascii [simp]: "code a < 128 \<Longrightarrow> valid_utf8 (a # s) = valid_utf8 s"
  by (simp add: valid_utf8.simps)

lemma valid_utf8_all_ascii: "(\<And>c. c \<in> set s \<Longrightarrow> code c < 128) \<Longrightarrow> valid_utf8 s"
  by (induction s) auto

lemma valid_utf8_append: "valid_utf8 s \<Longrightarrow> valid_utf8 (s @ t) = valid_utf8 t"
proof (induction s rule: valid_utf8.induct)
  case 1
  then show ?case by simp
next
  case (2 a s)
  let ?n = "utf8_len (a # s)"
  from "2.prems" have n: "?n \<noteq> 0" and v: "valid_utf8 (drop ?n (a # s))"
    by (auto simp: valid_utf8.simps simp del: utf8_len.simps split: if_splits)
  have "utf8_len (a # s @ t) = ?n"
    using utf8_len_append [OF n, of t] by simp
  moreover have "drop ?n (a # s @ t) = drop ?n (a # s) @ t"
    using utf8_len_le [of "a # s"] drop_append [of ?n "a # s" t] by simp
  ultimately have "valid_utf8 (a # s @ t) = valid_utf8 (drop ?n (a # s) @ t)"
    using n by (simp only: valid_utf8.simps append_Cons if_False)
  with "2.IH" [OF n v] show ?case by simp
qed

lemma plain_char_ascii: "plain_char c \<Longrightarrow> code c < 128"
  by (simp add: plain_char_def less_eq_char_def)

end
