(* ===== verification/GoJsonRoundtrip.thy ===== *)
theory GoJsonRoundtrip
  imports GoJson
begin

text \<open>
  \<open>Unmarshal\<close> after \<open>MarshalIndent\<close>: a document whose strings are valid UTF-8, whose
  numbers are printed integers and which nests no deeper than the parser allows parses back to
  itself. The fuel of the parser never runs out.
\<close>

section \<open>Strings\<close>

lemma emit_Some [simp]: "emit p (Some (x, t)) = Some (p @ x, t)"
  by (simp add: emit_def)

lemma hex_val_hex_digit: "n < 16 \<Longrightarrow> hex_val (hex_digit n) = Some n"
proof -
  assume "n < 16"
  then have "n \<in> {0, 1, 2, 3, 4, 5, 6, 7, 8, 9, 10, 11, 12, 13, 14, 15}" by (simp, presburger)
  then show ?thesis by (auto simp: hex_digit_def hex_val_def)
qed

lemma hex_val_0: "hex_val (CHR ''0'') = Some 0"
  by (simp add: hex_val_def)

lemma encode_rune_ascii: "code c < 128 \<Longrightarrow> encode_rune (code c) = [c]"
  by (simp add: encode_rune_def)

lemma unicode_escape_esc:
  assumes "code c < 128"
  shows "unicode_escape (CHR ''0'' # CHR ''0'' # hex_digit (code c div 16) # hex_digit (code c mod 16) # t)
    = Some ([c], t)"
  using assms
  by (simp add: unicode_escape_def hex_val_hex_digit hex_val_0 encode_rune_ascii)

lemma json_chars_esc: "code c < 128 \<Longrightarrow> json_chars (esc_char c @ t) = emit [c] (json_chars t)"
  by (auto simp: esc_char_def esc_u_def json_chars.simps(2) [of "CHR 0x5C"] json_chars.simps(2) [of c]
      unicode_escape_esc simple_escape_def)

lemma json_chars_2028:
  "json_chars (CHR 0x5C # ''u2028'' @ t) = emit [CHR 0xE2, CHR 0x80, CHR 0xA8] (json_chars t)"
  "json_chars (CHR 0x5C # ''u2029'' @ t) = emit [CHR 0xE2, CHR 0x80, CHR 0xA9] (json_chars t)"
  by (simp_all add: json_chars.simps(2) [of "CHR 0x5C"] unicode_escape_def hex_val_def encode_rune_def
      char_of_def bit_iff_odd)

lemma json_chars_multi:
  assumes "\<not> code c < 128" "utf8_len (c # s) \<noteq> 0"
  shows "json_chars (take (utf8_len (c # s)) (c # s) @ t) =
    emit (take (utf8_len (c # s)) (c # s)) (json_chars t)"
proof -
  let ?n = "utf8_len (c # s)"
  let ?w = "take ?n (c # s)"
  obtain u where w: "?w @ t = c # u"
    using assms(2) by (cases ?n) simp_all
  have "utf8_len (?w @ t) = ?n"
    using assms(2) utf8_len_append [of ?w t] utf8_len_take [of "c # s"] by simp
  moreover have "length ?w = ?n"
    using utf8_len_le [of "c # s"] by simp
  ultimately have n: "utf8_len (c # u) = ?n" "take ?n (c # u) = ?w" "drop ?n (c # u) = t"
    using w by (metis, metis append_eq_conv_conj, metis append_eq_conv_conj)
  have "c \<noteq> CHR 0x22" "c \<noteq> CHR 0x5C" "\<not> code c < 32"
    using assms(1) by auto
  then show ?thesis
    using assms by (simp only: w json_chars.simps n if_False)
qed

lemma line_sep_cases:
  assumes "line_sep s = Some e"
  obtains t where "s = CHR 0xE2 # CHR 0x80 # CHR 0xA8 # t" "e = CHR 0x5C # ''u2028''" "utf8_len s = 3"
  | t where "s = CHR 0xE2 # CHR 0x80 # CHR 0xA9 # t" "e = CHR 0x5C # ''u2029''" "utf8_len s = 3"
proof -
  have split: "s = take 3 s @ drop 3 s" by simp
  from assms consider
      "take 3 s = [CHR 0xE2, CHR 0x80, CHR 0xA8]" "e = CHR 0x5C # ''u2028''"
    | "take 3 s = [CHR 0xE2, CHR 0x80, CHR 0xA9]" "e = CHR 0x5C # ''u2029''"
    by (auto simp: line_sep_def split: if_splits)
  then show ?thesis
  proof cases
    case 1
    have s: "s = CHR 0xE2 # CHR 0x80 # CHR 0xA8 # drop 3 s"
      using 1(1) split by simp
    have "utf8_len (CHR 0xE2 # CHR 0x80 # CHR 0xA8 # drop 3 s) = 3"
      by (simp add: cont_def second_ok3_def)
    with that(1) [OF s] 1(2) s show ?thesis by simp
  next
    case 2
    have s: "s = CHR 0xE2 # CHR 0x80 # CHR 0xA9 # drop 3 s"
      using 2(1) split by simp
    have "utf8_len (CHR 0xE2 # CHR 0x80 # CHR 0xA9 # drop 3 s) = 3"
      by (simp add: cont_def second_ok3_def)
    with that(2) [OF s] 2(2) s show ?thesis by simp
  qed
qed

lemma json_chars_quote: "valid_utf8 s \<Longrightarrow> json_chars (quote_body s @ CHR 0x22 # t) = Some (s, t)"
proof (induction s rule: quote_body.induct)
  case 1
  then show ?case by (simp add: quote_body.simps json_chars.simps)
next
  case (2 c s)
  let ?n = "utf8_len (c # s)"
  show ?case
  proof (cases "code c < 128")
    case True
    with 2 show ?thesis by (simp add: quote_body.simps json_chars_esc del: utf8_len.simps)
  next
    case False
    from "2.prems" have n: "?n \<noteq> 0" and v: "valid_utf8 (drop ?n (c # s))"
      by (auto simp: valid_utf8.simps simp del: utf8_len.simps split: if_splits)
    show ?thesis
    proof (cases "line_sep (c # s)")
      case None
      have "json_chars (quote_body (drop ?n (c # s)) @ CHR 0x22 # t) = Some (drop ?n (c # s), t)"
        using "2.IH"(3) [OF False n None v] .
      then show ?thesis
        using False n None json_chars_multi [OF False n]
        by (simp only: quote_body.simps if_False option.case append_assoc emit_Some append_take_drop_id)
    next
      case (Some e)
      have IH: "json_chars (quote_body (drop ?n (c # s)) @ CHR 0x22 # t) = Some (drop ?n (c # s), t)"
        using "2.IH"(4) [OF False n Some v] .
      have q: "quote_body (c # s) = e @ quote_body (drop ?n (c # s))"
        using False n Some by (simp only: quote_body.simps if_False option.case)
      from Some show ?thesis
      proof (cases rule: line_sep_cases)
        case (1 u)
        then show ?thesis
          unfolding q append_assoc using IH by (simp add: json_chars_2028 [simplified] del: utf8_len.simps)
      next
        case (2 u)
        then show ?thesis
          unfolding q append_assoc using IH by (simp add: json_chars_2028 [simplified] del: utf8_len.simps)
      qed
    qed
  qed
qed

section \<open>Numbers\<close>

text \<open>What may follow a number in a printed document: nothing, a comma, a line break.\<close>

definition ends_num :: "string \<Rightarrow> bool" where
  "ends_num t \<longleftrightarrow> t = [] \<or> hd t = CHR '','' \<or> hd t = CHR 0x0A"

lemma ends_num_simps [simp]:
  "ends_num []" "ends_num (CHR '','' # t)" "ends_num (nl d @ t)"
  by (simp_all add: ends_num_def nl_def)

lemma digits_append:
  assumes "list_all is_digit s" "ends_num t"
  shows "digits (s @ t) = s" "after_digits (s @ t) = t"
proof -
  have "t = [] \<or> \<not> is_digit (hd t)"
    using assms(2) by (auto simp: ends_num_def is_digit_iff)
  then have "takeWhile is_digit t = []" "dropWhile is_digit t = t"
    by (cases t; simp)+
  moreover have "takeWhile is_digit (s @ t) = s @ takeWhile is_digit t"
      "dropWhile is_digit (s @ t) = dropWhile is_digit t"
    using assms(1) by (simp_all add: list_all_iff takeWhile_append2 dropWhile_append2)
  ultimately show "digits (s @ t) = s" "after_digits (s @ t) = t"
    by (simp_all add: digits_def after_digits_def)
qed

lemma lex_frac_end: "ends_num t \<Longrightarrow> lex_frac t = Some ([], t)"
  by (cases t) (auto simp: lex_frac_def ends_num_def)

lemma lex_exp_end: "ends_num t \<Longrightarrow> lex_exp t = Some ([], t)"
  by (cases t) (auto simp: lex_exp_def ends_num_def)

lemma digit_char_zero: "d < 10 \<Longrightarrow> digit_char d = CHR ''0'' \<longleftrightarrow> d = 0"
proof -
  assume "d < 10"
  then have "(of_char (digit_char d) :: nat) = of_char (CHR ''0'') \<longleftrightarrow> d = 0"
    by (simp add: of_char_digit_char)
  then show ?thesis by (simp only: of_char_eq_iff)
qed

lemma nat_text_hd_zero: "hd (nat_text n) = CHR ''0'' \<longleftrightarrow> n = 0"
proof (induction n rule: nat_text.induct)
  case (1 n)
  show ?case
  proof (cases "n < 10")
    case True
    then show ?thesis by (subst nat_text.simps) (simp add: digit_char_zero)
  next
    case False
    with 1 have "hd (nat_text (n div 10)) = CHR ''0'' \<longleftrightarrow> n div 10 = 0" by simp
    with False show ?thesis by (subst nat_text.simps) (simp add: div_eq_0_iff)
  qed
qed

lemma lex_int_nat_text: "ends_num t \<Longrightarrow> lex_int (nat_text n @ t) = Some (nat_text n, t)"
proof -
  assume t: "ends_num t"
  obtain c s where eq: "nat_text n = c # s" by (cases "nat_text n") auto
  show ?thesis
  proof (cases "n = 0")
    case True
    then have "nat_text n = ''0''" by (subst nat_text.simps) (simp add: digit_char_zero)
    then show ?thesis by (simp add: lex_int_def)
  next
    case False
    then have "c \<noteq> CHR ''0''" using nat_text_hd_zero [of n] eq by simp
    then show ?thesis
      using digits_append [OF nat_text_digits t, of n] eq by (simp add: lex_int_def)
  qed
qed

lemma lex_num_itoa: "ends_num t \<Longrightarrow> lex_num (itoa i @ t) = Some (itoa i, t)"
proof -
  assume t: "ends_num t"
  have "nat_text n \<noteq> [] \<and> hd (nat_text n) \<noteq> CHR ''-''" for n
    using nat_text_hd_digit [of n] digit_not_sign by auto
  then show ?thesis
    using t by (auto simp: itoa_def lex_num_def lex_int_nat_text lex_frac_end lex_exp_end)
qed

lemma itoa_start: "\<exists>c s. itoa i = c # s \<and> (c = CHR ''-'' \<or> is_digit c)"
  using nat_text_hd_digit [of "nat i"] by (cases "nat_text (nat i)") (auto simp: itoa_def)

section \<open>The fuel is enough\<close>

lemma skip_ws_le: "length (skip_ws s) \<le> length s"
  by (simp add: skip_ws_def length_dropWhile_le)

lemma skip_ws_Cons: "skip_ws s = c # r \<Longrightarrow> length r < length s"
  by (metis Suc_le_lessD length_Cons skip_ws_le)

lemma json_chars_shorter: "json_chars s = Some (x, t) \<Longrightarrow> length t < length s"
proof (induction s arbitrary: x t rule: json_chars.induct)
  case 1
  then show ?case by (simp add: json_chars.simps)
next
  case (2 c s)
  have emitD: "\<exists>y. r = Some (y, t)" if "emit p r = Some (x, t)" for p r
    using that by (auto simp: emit_def)
  let ?n = "utf8_len (c # s)"
  consider "c = CHR 0x22" | "c \<noteq> CHR 0x22" "c = CHR 0x5C"
    | "c \<noteq> CHR 0x22" "c \<noteq> CHR 0x5C" by blast
  then show ?case
  proof cases
    case 1
    with "2.prems" show ?thesis by (simp add: json_chars.simps)
  next
    case c: 2
    with "2.prems" obtain e u where s: "s = e # u"
      by (cases s) (auto simp: json_chars.simps)
    show ?thesis
    proof (cases "e = CHR ''u''")
      case True
      with c s "2.prems" obtain p v where pv: "unicode_escape u = Some (p, v)"
          "emit p (json_chars v) = Some (x, t)"
        by (auto simp: json_chars.simps split: option.splits)
      with emitD obtain y where "json_chars v = Some (y, t)" by blast
      with "2.IH"(1) [OF c s True pv(1) refl] unicode_escape_shorter [OF pv(1)] s
      show ?thesis by simp
    next
      case False
      with c s "2.prems" obtain b where b: "simple_escape e = Some b"
          "emit [b] (json_chars u) = Some (x, t)"
        by (auto simp: json_chars.simps split: option.splits)
      with emitD obtain y where "json_chars u = Some (y, t)" by blast
      with "2.IH"(2) [OF c s False b(1)] s show ?thesis by simp
    qed
  next
    case c: 3
    with "2.prems" have c32: "\<not> code c < 32"
      by (auto simp: json_chars.simps simp del: utf8_len.simps)
    show ?thesis
    proof (cases "code c < 128")
      case True
      with c c32 "2.prems" emitD obtain y where "json_chars s = Some (y, t)"
        by (fastforce simp: json_chars.simps simp del: utf8_len.simps)
      with "2.IH"(3) [OF c c32 True] show ?thesis by simp
    next
      case False
      show ?thesis
      proof (cases "?n = 0")
        case True
        with False c c32 "2.prems" emitD obtain y where "json_chars s = Some (y, t)"
          by (fastforce simp: json_chars.simps simp del: utf8_len.simps)
        with "2.IH"(4) [OF c c32 False True] show ?thesis by simp
      next
        case n: False
        with False c c32 "2.prems" emitD obtain y where "json_chars (drop ?n (c # s)) = Some (y, t)"
          by (fastforce simp: json_chars.simps simp del: utf8_len.simps)
        with "2.IH"(5) [OF c c32 False n] n show ?thesis by (simp del: utf8_len.simps)
      qed
    qed
  qed
qed

lemma digits_shorter: "digits s \<noteq> [] \<Longrightarrow> length (after_digits s) < length s"
proof (cases s)
  case (Cons c t)
  assume "digits s \<noteq> []"
  then have "after_digits s = dropWhile is_digit t"
    using Cons by (auto simp: digits_def after_digits_def split: if_splits)
  then show ?thesis using Cons by (simp add: le_imp_less_Suc length_dropWhile_le)
qed (simp add: digits_def)

lemma after_digits_le: "length s \<le> n \<Longrightarrow> length (after_digits s) \<le> n"
  by (metis after_digits_def le_trans length_dropWhile_le)

lemma lex_int_shorter: "lex_int s = Some (l, t) \<Longrightarrow> length t < length s"
  using digits_shorter [of s] by (auto simp: lex_int_def split: list.splits if_splits)

lemma lex_frac_le: "lex_frac s = Some (l, t) \<Longrightarrow> length t \<le> length s"
  by (auto simp: lex_frac_def intro!: after_digits_le split: list.splits if_splits)

lemma lex_exp_le: "lex_exp s = Some (l, t) \<Longrightarrow> length t \<le> length s"
  by (auto simp: lex_exp_def Let_def intro!: after_digits_le split: list.splits if_splits)

lemma lex_num_shorter: "lex_num s = Some (l, t) \<Longrightarrow> length t < length s"
proof -
  assume "lex_num s = Some (l, t)"
  then obtain k i s2 f s3 e where
      "lex_int (drop k s) = Some (i, s2)" "lex_frac s2 = Some (f, s3)" "lex_exp s3 = Some (e, t)"
    by (auto simp: lex_num_def bind_eq_Some_conv Let_def)
  then have "length t < length (drop k s)"
    using lex_int_shorter lex_frac_le lex_exp_le by (meson le_less_trans)
  then show ?thesis by simp
qed

lemma lit_shorter: "lit w j s = Some (v, r) \<Longrightarrow> w \<noteq> [] \<Longrightarrow> length r < length s"
  by (cases w; cases s) (auto simp: lit_def has_prefix_def split: if_splits)

lemma pval_Suc_cases:
  assumes "pval (Suc n) s = Some (v, r)"
  obtains c t where "skip_ws s = c # t"
    "(\<exists>q. skip_ws t = q # r) \<or> (\<exists>ms. pmembers n t = Some (ms, r)) \<or> (\<exists>xs. pelems n t = Some (xs, r))
      \<or> (\<exists>x. json_chars t = Some (x, r)) \<or> (\<exists>w j. w \<noteq> [] \<and> lit w j (c # t) = Some (v, r))
      \<or> (\<exists>l. lex_num (c # t) = Some (l, r))"
proof -
  from assms obtain c t where ct: "skip_ws s = c # t" by (auto split: list.splits)
  consider "c = CHR ''{''" | "c = CHR ''[''" | "c = CHR 0x22" | "c = CHR ''t''" | "c = CHR ''f''"
    | "c = CHR ''n''" | "c \<notin> {CHR ''{'', CHR ''['', CHR 0x22, CHR ''t'', CHR ''f'', CHR ''n''}"
    by auto
  then show ?thesis
  proof cases
    case 4
    with assms ct show ?thesis by (intro that [OF ct]) (simp, blast)
  next
    case 5
    with assms ct show ?thesis by (intro that [OF ct]) (simp, blast)
  next
    case 6
    with assms ct show ?thesis by (intro that [OF ct]) (simp, blast)
  qed (use assms ct that [OF ct] in \<open>auto split: list.splits if_splits\<close>)
qed

lemma pelems_Suc_cases:
  assumes "pelems (Suc n) s = Some (vs, r)"
  obtains v t q u where "pval n s = Some (v, t)" "skip_ws t = q # u"
    "(\<exists>vs. pelems n u = Some (vs, r)) \<or> r = u"
proof -
  from assms obtain v t where v: "pval n s = Some (v, t)"
    by (cases "pval n s") auto
  with assms obtain q u where q: "skip_ws t = q # u"
    by (auto split: list.splits)
  have "(\<exists>vs. pelems n u = Some (vs, r)) \<or> r = u"
    using assms v q by (auto split: if_splits)
  with v q show ?thesis by (rule that)
qed

lemma pmembers_Suc_cases:
  assumes "pmembers (Suc n) s = Some (ms, r)"
  obtains c t k t1 d t2 v t3 q u where
    "skip_ws s = c # t" "json_chars t = Some (k, t1)" "skip_ws t1 = d # t2"
    "pval n t2 = Some (v, t3)" "skip_ws t3 = q # u"
    "(\<exists>ms. pmembers n u = Some (ms, r)) \<or> r = u"
proof -
  from assms obtain t where t: "skip_ws s = CHR 0x22 # t"
    by (auto split: list.splits if_splits)
  with assms obtain k t1 where k: "json_chars t = Some (k, t1)"
    by (cases "json_chars t") auto
  with assms t obtain t2 where t2: "skip_ws t1 = CHR '':'' # t2"
    by (auto split: list.splits if_splits)
  with assms t k obtain v t3 where v: "pval n t2 = Some (v, t3)"
    by (cases "pval n t2") auto
  with assms t k t2 obtain q u where q: "skip_ws t3 = q # u"
    by (auto split: list.splits if_splits)
  have "(\<exists>ms. pmembers n u = Some (ms, r)) \<or> r = u"
    using assms t k t2 v q by (auto split: if_splits)
  with t k t2 v q show ?thesis by (rule that)
qed

lemma pval_shorter:
  "pval n s = Some (v, r) \<Longrightarrow> length r < length s"
  "pelems n s = Some (vs, r) \<Longrightarrow> length r < length s"
  "pmembers n s = Some (ms, r) \<Longrightarrow> length r < length s"
proof (induction n arbitrary: s v vs ms r)
  case 0
  { case 1 then show ?case by simp }
  { case 2 then show ?case by simp }
  { case 3 then show ?case by simp }
next
  case (Suc n)
  { case 1
    then obtain c t where ct: "skip_ws s = c # t" and
      cases: "(\<exists>q. skip_ws t = q # r) \<or> (\<exists>ms. pmembers n t = Some (ms, r))
        \<or> (\<exists>xs. pelems n t = Some (xs, r)) \<or> (\<exists>x. json_chars t = Some (x, r))
        \<or> (\<exists>w j. w \<noteq> [] \<and> lit w j (c # t) = Some (v, r)) \<or> (\<exists>l. lex_num (c # t) = Some (l, r))"
      by (rule pval_Suc_cases)
    have "length (c # t) \<le> length s" using skip_ws_le [of s] by (simp add: ct)
    moreover from cases have "length r < length (c # t)"
      by (auto dest: skip_ws_Cons Suc.IH json_chars_shorter lit_shorter lex_num_shorter
          intro: less_SucI)
    ultimately show ?case by simp }
  { case 2
    then obtain v t q u where "pval n s = Some (v, t)" "skip_ws t = q # u"
        "(\<exists>vs. pelems n u = Some (vs, r)) \<or> r = u"
      by (rule pelems_Suc_cases)
    moreover from this have "length t < length s" "length u < length t"
      by (blast dest: Suc.IH(1) skip_ws_Cons)+
    ultimately show ?case by (fastforce dest: Suc.IH(2)) }
  { case 3
    then obtain c t k t1 d t2 v t3 q u where
        "skip_ws s = c # t" "json_chars t = Some (k, t1)" "skip_ws t1 = d # t2"
        "pval n t2 = Some (v, t3)" "skip_ws t3 = q # u"
        "(\<exists>ms. pmembers n u = Some (ms, r)) \<or> r = u"
      by (rule pmembers_Suc_cases)
    moreover from this have "length t < length s" "length t1 < length t" "length t2 < length t1"
        "length t3 < length t2" "length u < length t3"
      by (blast dest: Suc.IH(1) skip_ws_Cons json_chars_shorter)+
    ultimately show ?case by (fastforce dest: Suc.IH(3)) }
qed

text \<open>
  Once the fuel is twice the length of the input, more fuel changes nothing: the parser never
  stops for lack of it.
\<close>

lemma pval_fuel:
  "2 * length s + 1 \<le> n \<Longrightarrow> n \<le> m \<Longrightarrow> pval m s = pval n s"
  "2 * length s + 2 \<le> n \<Longrightarrow> n \<le> m \<Longrightarrow> pelems m s = pelems n s"
  "2 * length s + 2 \<le> n \<Longrightarrow> n \<le> m \<Longrightarrow> pmembers m s = pmembers n s"
proof (induction n arbitrary: s m)
  case 0
  { case 1 then show ?case by simp }
  { case 2 then show ?case by simp }
  { case 3 then show ?case by simp }
next
  case (Suc n)
  { case 1
    then obtain m' where m: "m = Suc m'" "n \<le> m'" by (cases m) auto
    have "pelems m' t = pelems n t" "pmembers m' t = pmembers n t"
      if "skip_ws s = c # t" for c t
      using skip_ws_Cons [OF that] 1 m by (auto intro!: Suc.IH)
    then show ?case by (simp add: m split: list.split) }
  { case 2
    then obtain m' where m: "m = Suc m'" "n \<le> m'" by (cases m) auto
    have v: "pval m' s = pval n s"
      using 2 m by (intro Suc.IH) auto
    have "pelems m' u = pelems n u"
      if "pval n s = Some (v, t)" "skip_ws t = q # u" for v t q u
      using pval_shorter(1) [OF that(1)] skip_ws_Cons [OF that(2)] 2 m by (intro Suc.IH) auto
    then show ?case
      by (auto simp: m v split: list.split intro!: bind_option_cong) }
  { case 3
    then obtain m' where m: "m = Suc m'" "n \<le> m'" by (cases m) auto
    have v: "pval m' t2 = pval n t2"
      if "skip_ws s = c # t" "json_chars t = Some (k, t1)" "skip_ws t1 = d # t2" for c t k t1 d t2
      using skip_ws_Cons [OF that(1)] json_chars_shorter [OF that(2)] skip_ws_Cons [OF that(3)] 3 m
      by (intro Suc.IH) auto
    have "pmembers m' u = pmembers n u"
      if "skip_ws s = c # t" "json_chars t = Some (k, t1)" "skip_ws t1 = d # t2"
        "pval n t2 = Some (v, t3)" "skip_ws t3 = q # u" for c t k t1 d t2 v t3 q u
      using skip_ws_Cons [OF that(1)] json_chars_shorter [OF that(2)] skip_ws_Cons [OF that(3)]
        pval_shorter(1) [OF that(4)] skip_ws_Cons [OF that(5)] 3 m
      by (intro Suc.IH) auto
    with v show ?case
      by (auto simp: m split: list.split intro!: bind_option_cong) }
qed

section \<open>Documents\<close>

text \<open>The documents \<open>MarshalIndent\<close> prints without loss.\<close>

fun json_good :: "json \<Rightarrow> bool" where
  "json_good JNull = True"
| "json_good (JBool b) = True"
| "json_good (JNum l) = (case atoi l of Some i \<Rightarrow> itoa i = l | None \<Rightarrow> False)"
| "json_good (JStr s) = valid_utf8 s"
| "json_good (JArr xs) = list_all json_good xs"
| "json_good (JObj ms) = list_all (\<lambda>m. valid_utf8 (fst m) \<and> json_good (snd m)) ms"

text \<open>The fuel a printed document takes.\<close>

fun jneed :: "json \<Rightarrow> nat" where
  "jneed (JArr xs) = Suc (foldr (\<lambda>x n. Suc (max (jneed x) n)) xs 0)"
| "jneed (JObj ms) = Suc (foldr (\<lambda>m n. Suc (max (jneed (snd m)) n)) ms 0)"
| "jneed _ = 1"

abbreviation "eneed xs \<equiv> foldr (\<lambda>x n. Suc (max (jneed x) n)) xs 0"
abbreviation "mneed ms \<equiv> foldr (\<lambda>m n. Suc (max (jneed (snd m)) n)) ms 0"

lemma is_ws_replicate: "dropWhile is_ws (replicate n (CHR '' '') @ s) = dropWhile is_ws s"
  by (induction n) (simp_all add: is_ws_def)

lemma skip_ws_nl [simp]: "skip_ws (nl d @ s) = skip_ws s"
  by (simp add: skip_ws_def nl_def is_ws_def is_ws_replicate)

lemma skip_ws_space [simp]: "skip_ws (CHR '' '' # s) = skip_ws s"
  by (simp add: skip_ws_def is_ws_def)

lemma skip_ws_other [simp]: "\<not> is_ws c \<Longrightarrow> skip_ws (c # s) = c # s"
  by (simp add: skip_ws_def)

lemma is_ws_simps [simp]:
  "\<not> is_ws (CHR ''['')" "\<not> is_ws (CHR '']'')" "\<not> is_ws (CHR ''{'')" "\<not> is_ws (CHR ''}'')"
  "\<not> is_ws (CHR 0x22)" "\<not> is_ws (CHR '','')" "\<not> is_ws (CHR '':'')"
  "\<not> is_ws (CHR ''n'')" "\<not> is_ws (CHR ''t'')" "\<not> is_ws (CHR ''f'')" "\<not> is_ws (CHR ''-'')"
  "is_digit c \<Longrightarrow> \<not> is_ws c"
  by (auto simp: is_ws_def is_digit_iff)

text \<open>
  A printed value starts with a character that is neither white space nor a closing bracket,
  also behind white space of its own.
\<close>

lemma print_json_start:
  assumes "json_good j"
  obtains c t where "print_json d j = c # t" "\<not> is_ws c" "c \<noteq> CHR '']''" "c \<noteq> CHR ''}''"
proof (cases j)
  case (JNum l)
  with assms obtain i where "l = itoa i" by (auto split: option.splits)
  with itoa_start [of i] obtain c s where "print_json d j = c # s" "c = CHR ''-'' \<or> is_digit c"
    using JNum by auto
  then show ?thesis by (intro that) (auto simp: is_digit_iff is_ws_def)
next
  case (JBool b)
  with that show ?thesis by (cases b) auto
next
  case (JArr xs)
  with that [of "CHR ''[''"] show ?thesis by (cases "xs = []") auto
next
  case (JObj ms)
  with that [of "CHR ''{''"] show ?thesis by (cases "ms = []") auto
qed (use that in \<open>auto simp: quote_json_def\<close>)

lemma quote_json_append: "quote_json s @ t = CHR 0x22 # quote_body s @ CHR 0x22 # t"
  by (simp add: quote_json_def)

lemma pval_num:
  assumes "ends_num t"
  shows "pval (Suc n) (itoa i @ t) = Some (JNum (itoa i), t)"
proof -
  obtain c s where s: "itoa i = c # s" "c = CHR ''-'' \<or> is_digit c"
    using itoa_start by blast
  have "\<not> is_ws c" "c \<notin> {CHR ''{'', CHR ''['', CHR 0x22, CHR ''t'', CHR ''f'', CHR ''n''}"
    using s(2) by (auto simp: is_digit_iff)
  with s(1) lex_num_itoa [OF assms, of i] show ?thesis by simp
qed

lemma pelems_step:
  assumes "pval n (p @ t) = Some (x, t)" "skip_ws t = CHR '','' # u" "pelems n u = Some (xs, r)"
  shows "pelems (Suc n) (p @ t) = Some (x # xs, r)"
  using assms by simp

lemma pmembers_step:
  assumes "valid_utf8 k" "pval n (CHR '' '' # p @ t) = Some (v, t)"
  shows "pmembers (Suc n) (quote_json k @ '': '' @ p @ t) =
    (case skip_ws t of
       [] \<Rightarrow> None
     | q # u \<Rightarrow> if q = CHR '','' then map_option (\<lambda>(ms, w). ((k, v) # ms, w)) (pmembers n u)
                 else if q = CHR ''}'' then Some ([(k, v)], u) else None)"
  using assms json_chars_quote [OF assms(1)] by (simp add: quote_json_append)

lemma pval_skip_ws: "skip_ws s = skip_ws t \<Longrightarrow> pval n s = pval n t"
  by (cases n) simp_all

lemma pval_space: "pval n (CHR '' '' # s) = pval n s"
  by (rule pval_skip_ws) simp

lemma pval_nl: "pval n (nl d @ s) = pval n s"
  by (rule pval_skip_ws) simp

lemma pmembers_nl: "pmembers n (nl d @ s) = pmembers n s"
  by (cases n) simp_all

lemma pelems_nl: "pelems n (nl d @ s) = pelems n s"
  by (cases n) (simp_all add: pval_nl)

lemma print_parse:
  "json_good j \<Longrightarrow> jneed j \<le> n \<Longrightarrow> ends_num t \<Longrightarrow> pval n (print_json d j @ t) = Some (j, t)"
  "list_all json_good xs \<Longrightarrow> xs \<noteq> [] \<Longrightarrow> eneed xs \<le> n \<Longrightarrow>
     pelems n (print_elems d xs @ nl e @ CHR '']'' # t) = Some (xs, t)"
  "list_all (\<lambda>m. valid_utf8 (fst m) \<and> json_good (snd m)) ms \<Longrightarrow> ms \<noteq> [] \<Longrightarrow> mneed ms \<le> n \<Longrightarrow>
     pmembers n (print_members d ms @ nl e @ CHR ''}'' # t) = Some (ms, t)"
proof (induction d j and d xs and d ms arbitrary: n t and n t e and n t e
    rule: print_json_print_elems_print_members.induct)
  case (1 d)
  then show ?case by (cases n) (simp_all add: lit_def has_prefix_def)
next
  case (2 d b)
  then show ?case by (cases n; cases b) (simp_all add: lit_def has_prefix_def)
next
  case (3 d l)
  then obtain i where "l = itoa i" by (auto split: option.splits)
  with 3 show ?case by (cases n) (simp_all add: pval_num del: pval.simps)
next
  case (4 d s)
  then show ?case
    by (cases n) (simp_all add: quote_json_append json_chars_quote)
next
  case (5 d xs)
  then obtain m where n: "n = Suc m" by (cases n) auto
  show ?case
  proof (cases xs)
    case Nil
    with n show ?thesis by simp
  next
    case (Cons x ys)
    with "5.prems" have "json_good x" by simp
    then obtain c u where cu: "print_json (Suc d) x = c # u" "\<not> is_ws c" "c \<noteq> CHR '']''"
      by (rule print_json_start)
    have "pelems m (print_elems (Suc d) xs @ nl d @ CHR '']'' # t) = Some (xs, t)"
      using "5.IH" "5.prems" Cons n by simp
    with n Cons cu show ?thesis by (simp add: pelems_nl)
  qed
next
  case (6 d ms)
  then obtain m where n: "n = Suc m" by (cases n) auto
  show ?case
  proof (cases ms)
    case Nil
    with n show ?thesis by simp
  next
    case (Cons kv ys)
    have "pmembers m (print_members (Suc d) ms @ nl d @ CHR ''}'' # t) = Some (ms, t)"
      using "6.IH" "6.prems" Cons n by simp
    with n Cons show ?thesis by (cases kv) (simp add: pmembers_nl quote_json_append)
  qed
next
  case (7 d)
  then show ?case by simp
next
  case (8 d x xs)
  then obtain m where n: "n = Suc m" by (cases n) auto
  let ?t = "if xs = [] then nl e @ CHR '']'' # t
            else CHR '','' # nl d @ print_elems d xs @ nl e @ CHR '']'' # t"
  have v: "pval m (print_json d x @ ?t) = Some (x, ?t)"
    using "8.IH"(1) [of m ?t] "8.prems" n by simp
  show ?case
  proof (cases "xs = []")
    case True
    with v n show ?thesis by simp
  next
    case False
    then have "pelems m (nl d @ print_elems d xs @ nl e @ CHR '']'' # t) = Some (xs, t)"
      using "8.IH"(2) "8.prems" n by (simp add: pelems_nl)
    with False v n show ?thesis by simp
  qed
next
  case (9 d)
  then show ?case by simp
next
  case (10 d k v ms)
  then obtain m where n: "n = Suc m" by (cases n) auto
  let ?t = "if ms = [] then nl e @ CHR ''}'' # t
            else CHR '','' # nl d @ print_members d ms @ nl e @ CHR ''}'' # t"
  have "pval m (print_json d v @ ?t) = Some (v, ?t)"
    using "10.IH"(1) [of m ?t] "10.prems" n by simp
  then have v: "pval m (CHR '' '' # print_json d v @ ?t) = Some (v, ?t)"
    by (simp add: pval_space)
  have k: "valid_utf8 k" using "10.prems" by simp
  have eq: "print_members d ((k, v) # ms) @ nl e @ CHR ''}'' # t
      = quote_json k @ '': '' @ print_json d v @ ?t"
    by simp
  show ?case
  proof (cases "ms = []")
    case True
    with pmembers_step [OF k v] n show ?thesis by (simp only: eq) simp
  next
    case False
    then have "pmembers m (nl d @ print_members d ms @ nl e @ CHR ''}'' # t) = Some (ms, t)"
      using "10.IH"(2) "10.prems" n by (simp add: pmembers_nl)
    with False pmembers_step [OF k v] n show ?thesis by (simp only: eq) simp
  qed
qed

text \<open>Printing, then parsing.\<close>

lemma parse_marshal:
  assumes "json_good j" "jdepth j \<le> 10000"
  shows "parse_json (marshal_indent j @ [CHR 0x0A]) = Some j"
    and "parse_json (marshal_indent j) = Some j"
proof -
  have *: "pval (2 * length (marshal_indent j @ t) + 1) (marshal_indent j @ t) = Some (j, t)"
    if "ends_num t" for t
  proof -
    let ?s = "marshal_indent j @ t"
    let ?m = "max (2 * length ?s + 1) (jneed j)"
    have "pval ?m ?s = Some (j, t)"
      unfolding marshal_indent_def using assms(1) that by (intro print_parse(1)) simp_all
    moreover have "pval ?m ?s = pval (2 * length ?s + 1) ?s"
      by (rule pval_fuel(1)) simp_all
    ultimately show ?thesis by simp
  qed
  have "ends_num [CHR 0x0A]" "skip_ws [CHR 0x0A] = []" "skip_ws [] = []"
    by (simp_all add: ends_num_def skip_ws_def is_ws_def)
  with * [of "[CHR 0x0A]"] * [of "[]"] assms(2)
  show "parse_json (marshal_indent j @ [CHR 0x0A]) = Some j" "parse_json (marshal_indent j) = Some j"
    unfolding parse_json_def by simp_all
qed

interpretation json_text: codec "\<lambda>j. marshal_indent j @ [CHR 0x0A]" parse_json
    "\<lambda>j. json_good j \<and> jdepth j \<le> 10000"
  by unfold_locales (simp add: parse_marshal(1))

end
