(* ===== verification/GoDecode.thy ===== *)
theory GoDecode
  imports GoJsonRoundtrip
begin

text \<open>
  How \<open>json.Unmarshal\<close> stores a parsed document into a Go value. A decoder takes the
  current value and the tree and returns the new value and whether every part had the right
  type; a mismatch does not stop the decoding of the rest, the first one is the error in the
  end. Object keys match field names up to letter case, later duplicates overwrite or merge
  into earlier ones, \<open>null\<close> leaves scalars and structs alone and clears slices, maps and
  pointers, unknown keys are skipped.
\<close>

type_synonym 'a decoder = "'a \<Rightarrow> json \<Rightarrow> 'a \<times> bool"

definition dec_string :: "string decoder" where
  "dec_string cur j = (case j of JStr s \<Rightarrow> (s, True) | JNull \<Rightarrow> (cur, True) | _ \<Rightarrow> (cur, False))"

definition dec_bool :: "bool decoder" where
  "dec_bool cur j = (case j of JBool b \<Rightarrow> (b, True) | JNull \<Rightarrow> (cur, True) | _ \<Rightarrow> (cur, False))"

definition dec_int :: "int decoder" where
  "dec_int cur j =
     (case j of
        JNum l \<Rightarrow> (case atoi l of Some i \<Rightarrow> (i, True) | None \<Rightarrow> (cur, False))
      | JNull \<Rightarrow> (cur, True)
      | _ \<Rightarrow> (cur, False))"

text \<open>An element is decoded over the one already at its place, a fresh one over the zero value.\<close>

fun dec_elems :: "'a decoder \<Rightarrow> 'a \<Rightarrow> 'a list \<Rightarrow> json list \<Rightarrow> 'a list \<times> bool" where
  "dec_elems d z cur [] = ([], True)"
| "dec_elems d z cur (x # xs) =
     (let (v, ok) = d (case cur of [] \<Rightarrow> z | c # _ \<Rightarrow> c) x;
          (vs, oks) = dec_elems d z (tl cur) xs
      in (v # vs, ok \<and> oks))"

definition dec_slice :: "'a decoder \<Rightarrow> 'a \<Rightarrow> 'a list decoder" where
  "dec_slice d z cur j =
     (case j of JArr xs \<Rightarrow> dec_elems d z cur xs | JNull \<Rightarrow> ([], True) | _ \<Rightarrow> (cur, False))"

fun dec_entries :: "'a decoder \<Rightarrow> 'a \<Rightarrow> (string, 'a) gomap \<Rightarrow> (string \<times> json) list
    \<Rightarrow> (string, 'a) gomap \<times> bool" where
  "dec_entries d z cur [] = (cur, True)"
| "dec_entries d z cur ((k, j) # ms) =
     (let (v, ok) = d z j; (m, oks) = dec_entries d z (mput k v cur) ms in (m, ok \<and> oks))"

definition dec_map :: "'a decoder \<Rightarrow> 'a \<Rightarrow> (string, 'a) gomap decoder" where
  "dec_map d z cur j =
     (case j of JObj ms \<Rightarrow> dec_entries d z cur ms | JNull \<Rightarrow> ([], True) | _ \<Rightarrow> (cur, False))"

definition dec_ptr :: "'a decoder \<Rightarrow> 'a \<Rightarrow> 'a option decoder" where
  "dec_ptr d z cur j =
     (case j of
        JNull \<Rightarrow> (None, True)
      | _ \<Rightarrow> (let (v, ok) = d (case cur of None \<Rightarrow> z | Some c \<Rightarrow> c) j in (Some v, ok)))"

text \<open>A struct is given by what it does with one member.\<close>

type_synonym 'a field_decoder = "'a \<Rightarrow> string \<Rightarrow> json \<Rightarrow> 'a \<times> bool"

fun dec_fields :: "'a field_decoder \<Rightarrow> 'a \<Rightarrow> (string \<times> json) list \<Rightarrow> 'a \<times> bool" where
  "dec_fields f cur [] = (cur, True)"
| "dec_fields f cur ((k, j) # ms) =
     (let (cur', ok) = f cur k j; (cur'', oks) = dec_fields f cur' ms in (cur'', ok \<and> oks))"

definition dec_struct :: "'a field_decoder \<Rightarrow> 'a decoder" where
  "dec_struct f cur j =
     (case j of JObj ms \<Rightarrow> dec_fields f cur ms | JNull \<Rightarrow> (cur, True) | _ \<Rightarrow> (cur, False))"

lemma dec_struct_JObj [simp]: "dec_struct f cur (JObj ms) = dec_fields f cur ms"
  by (simp add: dec_struct_def)

text \<open>
  A key names a field when both fold to the same text: ASCII letters without regard to case,
  and the two non-ASCII characters that fold to ASCII letters (U+017F and U+212A).
\<close>

definition upper_char :: "char \<Rightarrow> char" where
  "upper_char c = (if CHR ''a'' \<le> c \<and> c \<le> CHR ''z'' then char_of (of_char c - 32 :: nat) else c)"

fun fold_name :: "string \<Rightarrow> string" where
  "fold_name (a # b # c # s) =
     (if a = CHR 0xC5 \<and> b = CHR 0xBF then CHR ''S'' # fold_name (c # s)
      else if a = CHR 0xE2 \<and> b = CHR 0x84 \<and> c = CHR 0xAA then CHR ''K'' # fold_name s
      else upper_char a # fold_name (b # c # s))"
| "fold_name [a, b] =
     (if a = CHR 0xC5 \<and> b = CHR 0xBF then ''S'' else [upper_char a, upper_char b])"
| "fold_name [a] = [upper_char a]"
| "fold_name [] = []"

definition key_is :: "string \<Rightarrow> string \<Rightarrow> bool" where
  "key_is name key \<longleftrightarrow> fold_name key = fold_name name"

definition field_into :: "'f decoder \<Rightarrow> ('a \<Rightarrow> 'f) \<Rightarrow> ('f \<Rightarrow> 'a \<Rightarrow> 'a) \<Rightarrow> 'a \<Rightarrow> json \<Rightarrow> 'a \<times> bool" where
  "field_into d get put cur j = (let (v, ok) = d (get cur) j in (put v cur, ok))"

text \<open>\<open>json.Unmarshal (data, &v)\<close>: the value \<open>v\<close> held before, then the error if any.\<close>

definition unmarshal :: "'a decoder \<Rightarrow> 'a \<Rightarrow> string \<Rightarrow> 'a result" where
  "unmarshal d cur data =
     (case parse_json data of
        None \<Rightarrow> Inl (ErrLib ''json.Unmarshal'' data)
      | Some j \<Rightarrow> (let (v, ok) = d cur j
                   in if ok then Inr v else Inl (ErrLib ''json.Unmarshal'' data)))"

text \<open>The value a failed or successful \<open>Unmarshal\<close> leaves behind, for a caller that drops the error.\<close>

definition unmarshal_into :: "'a decoder \<Rightarrow> 'a \<Rightarrow> string \<Rightarrow> 'a" where
  "unmarshal_into d cur data =
     (case parse_json data of None \<Rightarrow> cur | Some j \<Rightarrow> fst (d cur j))"

section \<open>Decoding what was encoded\<close>

lemma key_is_refl [simp]: "key_is k k"
  by (simp add: key_is_def)

named_theorems dec_simps \<open>decoding a tree of the matching shape\<close>

lemma dec_scalar [dec_simps, simp]:
  "dec_string cur (JStr s) = (s, True)"
  "dec_bool cb (JBool b) = (b, True)"
  "in64 i \<Longrightarrow> dec_int ci (JNum (itoa i)) = (i, True)"
  by (simp_all add: dec_string_def dec_bool_def dec_int_def atoi_itoa)

lemma dec_elems_fresh:
  "(\<And>x. x \<in> set xs \<Longrightarrow> d z (e x) = (x, True)) \<Longrightarrow> dec_elems d z [] (map e xs) = (xs, True)"
  by (induction xs) auto

lemma dec_slice_fresh [dec_simps]:
  "(\<And>x. x \<in> set xs \<Longrightarrow> d z (e x) = (x, True)) \<Longrightarrow>
   dec_slice d z [] (JArr (map e xs)) = (xs, True)"
  by (simp add: dec_slice_def dec_elems_fresh)

lemma dec_ptr_fresh [dec_simps]:
  "j \<noteq> JNull \<Longrightarrow> d z j = (x, True) \<Longrightarrow> dec_ptr d z None j = (Some x, True)"
  by (cases j) (simp_all add: dec_ptr_def)

lemma dec_entries_map:
  assumes "map_ok (m0 @ m)"
    and "\<And>x. x \<in> snd ` set m \<Longrightarrow> d z (e x) = (x, True)"
  shows "dec_entries d z m0 (map (\<lambda>(k, x). (k, e x)) m) = (m0 @ m, True)"
  using assms
proof (induction m arbitrary: m0)
  case Nil
  then show ?case by simp
next
  case (Cons kx m)
  obtain k x where kx: "kx = (k, x)" by (cases kx)
  have "mput k x m0 = m0 @ [(k, x)]"
    using Cons.prems(1) kx by (intro mput_last) (auto simp: map_ok_def mkeys_def sorted_wrt_append)
  moreover have "map_ok ((m0 @ [(k, x)]) @ m)"
    using Cons.prems(1) kx by simp
  ultimately show ?case
    using Cons.IH [of "m0 @ [(k, x)]"] Cons.prems kx by simp
qed

lemma dec_map_map [dec_simps]:
  assumes "map_ok m" "\<And>x. x \<in> snd ` set m \<Longrightarrow> d z (e x) = (x, True)"
  shows "dec_map d z [] (JObj (map (\<lambda>(k, x). (k, e x)) m)) = (m, True)"
  using assms dec_entries_map [of "[]" m d z e]
  by (simp add: dec_map_def)

lemma unmarshal_marshal:
  assumes "json_good j" "jdepth j \<le> 10000" "d cur j = (v, True)"
  shows "unmarshal d cur (marshal_indent j @ [CHR 0x0A]) = Inr v"
  using assms by (simp add: unmarshal_def parse_marshal)

lemma unmarshal_into_marshal:
  assumes "json_good j" "jdepth j \<le> 10000" "d cur j = (v, True)"
  shows "unmarshal_into d cur (marshal_indent j @ [CHR 0x0A]) = v"
  using assms by (simp add: unmarshal_into_def parse_marshal)

lemma dec_entries_map_ok: "map_ok cur \<Longrightarrow> map_ok (fst (dec_entries d z cur ms))"
proof (induction ms arbitrary: cur)
  case (Cons m ms)
  then show ?case by (cases m) (simp add: case_prod_beta' Let_def)
qed simp

lemma dec_map_ok: "map_ok cur \<Longrightarrow> map_ok (fst (dec_map d z cur j))"
  by (simp add: dec_map_def dec_entries_map_ok split: json.split)

end
