(* ===== verification/GoOS.thy ===== *)
theory GoOS
  imports GoStrings
begin

text \<open>
  The part of Go's \<open>os\<close> and \<open>path/filepath\<close> the program uses: a file system as explicit
  state, and lexical path operations (with forward slashes). Paths are compared as text. Every
  reason the system may have to refuse an operation (permissions, a full disk, a missing
  parent) is \<open>fs_refuses\<close>; \<open>fs_room\<close> makes a write stop after so many bytes.
\<close>

section \<open>filepath\<close>

definition slash :: char where "slash = CHR ''/''"

definition is_abs :: "string \<Rightarrow> bool" where
  "is_abs p \<longleftrightarrow> p \<noteq> [] \<and> hd p = slash"

text \<open>\<open>filepath.Clean\<close>: the components left after dropping empty ones, dots, and dot-dots with their parents.\<close>

definition clean_step :: "bool \<Rightarrow> string list \<Rightarrow> string \<Rightarrow> string list" where
  "clean_step rooted out w =
     (if w = [] \<or> w = ''.'' then out
      else if w = ''..'' then
        (if out \<noteq> [] \<and> last out \<noteq> ''..'' then butlast out
         else if rooted then out else out @ [w])
      else out @ [w])"

definition clean_path :: "string \<Rightarrow> string" where
  "clean_path p =
     (let rooted = is_abs p;
          out = foldl (clean_step rooted) [] (split_on slash p);
          body = join [slash] out
      in if rooted then slash # body else if body = [] then ''.'' else body)"

definition join_path :: "string list \<Rightarrow> string" where
  "join_path ws =
     (let ws' = dropWhile (\<lambda>w. w = []) ws
      in if ws' = [] then [] else clean_path (join [slash] ws'))"

text \<open>\<open>filepath.Dir\<close>: everything up to the last slash, cleaned.\<close>

definition dir_path :: "string \<Rightarrow> string" where
  "dir_path p = clean_path (rev (dropWhile (\<lambda>c. c \<noteq> slash) (rev p)))"

text \<open>\<open>filepath.Abs\<close>; the working directory is an error when the system cannot say what it is.\<close>

definition abs_path :: "string result \<Rightarrow> string \<Rightarrow> string result" where
  "abs_path wd p =
     (if is_abs p then Inr (clean_path p) else rbind wd (\<lambda>d. Inr (join_path [d, p])))"

lemma is_abs_clean: "is_abs p \<Longrightarrow> is_abs (clean_path p)"
  by (simp add: clean_path_def Let_def is_abs_def)

lemma is_abs_join_path: "is_abs d \<Longrightarrow> is_abs (join_path (d # ws))"
proof -
  assume d: "is_abs d"
  then have "d \<noteq> []" by (simp add: is_abs_def)
  moreover have "is_abs (join [slash] (d # ws))"
    using d by (cases ws) (auto simp: is_abs_def)
  ultimately show ?thesis by (simp add: join_path_def is_abs_clean)
qed

lemma is_abs_abs_path:
  assumes "abs_path wd p = Inr q" "\<And>d. wd = Inr d \<Longrightarrow> is_abs d"
  shows "is_abs q"
  using assms by (auto simp: abs_path_def res_simps is_abs_clean is_abs_join_path split: if_splits)

section \<open>Files\<close>

datatype node = File string | Dir

datatype fsop = OpStat | OpRead | OpWrite | OpMkdir | OpRename | OpRemove

record fs =
  fs_nodes :: "string \<Rightarrow> node option"
  fs_refuses :: "fsop \<Rightarrow> string \<Rightarrow> bool"
  fs_room :: "string \<Rightarrow> nat option"

definition stat :: "string \<Rightarrow> fs \<Rightarrow> unit result" where
  "stat p fs =
     (if fs_refuses fs OpStat p then Inl (ErrLib ''os.Stat'' p)
      else case fs_nodes fs p of None \<Rightarrow> Inl (ErrNotExist p) | Some _ \<Rightarrow> Inr ())"

definition read_file :: "string \<Rightarrow> fs \<Rightarrow> string result" where
  "read_file p fs =
     (if fs_refuses fs OpRead p then Inl (ErrLib ''os.ReadFile'' p)
      else case fs_nodes fs p of
             None \<Rightarrow> Inl (ErrNotExist p)
           | Some Dir \<Rightarrow> Inl (ErrLib ''os.ReadFile'' p)
           | Some (File d) \<Rightarrow> Inr d)"

definition put_node :: "string \<Rightarrow> node option \<Rightarrow> fs \<Rightarrow> fs" where
  "put_node p n fs = fs\<lparr>fs_nodes := (fs_nodes fs)(p := n)\<rparr>"

text \<open>
  \<open>os.WriteFile\<close> truncates an existing file before it writes: a write that runs out of room
  leaves the part that fitted.
\<close>

definition write_file :: "string \<Rightarrow> string \<Rightarrow> fs \<Rightarrow> unit result \<times> fs" where
  "write_file p d fs =
     (if fs_refuses fs OpWrite p \<or> fs_nodes fs p = Some Dir then
        (Inl (ErrLib ''os.WriteFile'' p), fs)
      else case fs_room fs p of
             Some n \<Rightarrow> if n < length d then
                          (Inl (ErrLib ''os.WriteFile'' p), put_node p (Some (File (take n d))) fs)
                        else (Inr (), put_node p (Some (File d)) fs)
           | None \<Rightarrow> (Inr (), put_node p (Some (File d)) fs))"

definition mkdir_all :: "string \<Rightarrow> fs \<Rightarrow> unit result \<times> fs" where
  "mkdir_all p fs =
     (if fs_refuses fs OpMkdir p then (Inl (ErrLib ''os.MkdirAll'' p), fs)
      else case fs_nodes fs p of
             Some Dir \<Rightarrow> (Inr (), fs)
           | Some (File _) \<Rightarrow> (Inl (ErrLib ''os.MkdirAll'' p), fs)
           | None \<Rightarrow> (Inr (), put_node p (Some Dir) fs))"

definition rename :: "string \<Rightarrow> string \<Rightarrow> fs \<Rightarrow> unit result \<times> fs" where
  "rename p q fs =
     (if fs_refuses fs OpRename p \<or> fs_nodes fs q = Some Dir then
        (Inl (ErrLib ''os.Rename'' p), fs)
      else case fs_nodes fs p of
             None \<Rightarrow> (Inl (ErrNotExist p), fs)
           | Some n \<Rightarrow> (Inr (), put_node q (Some n) (put_node p None fs)))"

definition remove :: "string \<Rightarrow> fs \<Rightarrow> unit result \<times> fs" where
  "remove p fs =
     (if fs_refuses fs OpRemove p then (Inl (ErrLib ''os.Remove'' p), fs)
      else case fs_nodes fs p of
             None \<Rightarrow> (Inl (ErrNotExist p), fs)
           | Some _ \<Rightarrow> (Inr (), put_node p None fs))"

text \<open>The files present, and nothing refused.\<close>

definition plain_fs :: "(string \<times> node) list \<Rightarrow> fs" where
  "plain_fs ns = \<lparr>fs_nodes = map_of ns, fs_refuses = (\<lambda>_ _. False), fs_room = (\<lambda>_. None)\<rparr>"

lemma put_node_simps [simp]:
  "fs_nodes (put_node p n fs) = (fs_nodes fs)(p := n)"
  "fs_refuses (put_node p n fs) = fs_refuses fs"
  "fs_room (put_node p n fs) = fs_room fs"
  by (simp_all add: put_node_def)

lemmas fs_defs = write_file_def mkdir_all_def rename_def remove_def

lemma fs_refuses_kept [simp]:
  "fs_refuses (snd (write_file p d fs)) = fs_refuses fs"
  "fs_refuses (snd (mkdir_all p fs)) = fs_refuses fs"
  "fs_refuses (snd (rename p q fs)) = fs_refuses fs"
  "fs_refuses (snd (remove p fs)) = fs_refuses fs"
  by (auto simp: fs_defs split: option.splits node.splits)

lemma write_file_nodes:
  "q \<noteq> p \<Longrightarrow> fs_nodes (snd (write_file p d fs)) q = fs_nodes fs q"
  by (auto simp: write_file_def split: option.splits)

lemma mkdir_all_nodes:
  "q \<noteq> p \<Longrightarrow> fs_nodes (snd (mkdir_all p fs)) q = fs_nodes fs q"
  by (auto simp: mkdir_all_def split: option.splits node.splits)

lemma write_file_ok:
  "write_file p d fs = (Inr (), fs') \<Longrightarrow> fs' = put_node p (Some (File d)) fs"
  by (auto simp: write_file_def split: option.splits if_splits)

lemma read_after_write:
  assumes "write_file p d fs = (Inr (), fs')"
  shows "read_file p fs' = (if fs_refuses fs OpRead p then Inl (ErrLib ''os.ReadFile'' p) else Inr d)"
  using write_file_ok [OF assms] by (simp add: read_file_def)

lemma read_other:
  assumes "q \<noteq> p"
  shows "read_file q (snd (write_file p d fs)) = read_file q fs"
    and "read_file q (snd (mkdir_all p fs)) = read_file q fs"
  using assms by (simp_all add: read_file_def write_file_nodes mkdir_all_nodes)

text \<open>A directory is created only where nothing was, so no file changes.\<close>

lemma mkdir_all_file: "fs_nodes (snd (mkdir_all p fs)) q = Some (File d) \<longleftrightarrow> fs_nodes fs q = Some (File d)"
  by (auto simp: mkdir_all_def split: option.splits node.splits)

end
