(* ===== verification/Inventory.thy ===== *)
theory Inventory
  imports GoBase64 GoDecode GoOS
begin

text \<open>
  \<open>internal/inventory/inventory.go\<close>: the node inventory, its validation, its JSON form, the
  merge of a partial update and the three selections.

  Empty and absent slices and maps are one value (the code tests only their length). What
  \<open>strings.EqualFold\<close> decides is the parameter \<open>eqf\<close>; a random choice is the parameter
  \<open>pick\<close>, which for a bound \<open>n\<close> returns a number below \<open>n\<close>.
\<close>

section \<open>Data\<close>

record front_proxy =
  front_endpoint :: string
  front_headers :: "(string, string) gomap"

record entry_group =
  group_name :: string
  group_ipv4 :: "string list"
  group_front :: "front_proxy option"

record host =
  host_slug :: string
  host_name :: string
  host_key :: string
  host_online :: bool

record inventory =
  inv_client_id :: string
  inv_root_domains :: "string list"
  inv_hosts :: "host list"
  inv_entry_groups :: "entry_group list"

definition zero_front :: front_proxy where
  "zero_front = \<lparr>front_endpoint = [], front_headers = []\<rparr>"

definition zero_group :: entry_group where
  "zero_group = \<lparr>group_name = [], group_ipv4 = [], group_front = None\<rparr>"

definition zero_host :: host where
  "zero_host = \<lparr>host_slug = [], host_name = [], host_key = [], host_online = False\<rparr>"

definition zero_inventory :: inventory where
  "zero_inventory = \<lparr>inv_client_id = [], inv_root_domains = [], inv_hosts = [], inv_entry_groups = []\<rparr>"

section \<open>Operations\<close>

definition fill_missing_from :: "inventory \<Rightarrow> inventory option \<Rightarrow> inventory" where
  "fill_missing_from iv prev =
     (case prev of
        None \<Rightarrow> iv
      | Some p \<Rightarrow>
          (let i1 = (if inv_root_domains iv = [] then iv\<lparr>inv_root_domains := inv_root_domains p\<rparr> else iv);
               i2 = (if inv_client_id i1 = [] then i1\<lparr>inv_client_id := inv_client_id p\<rparr> else i1);
               i3 = (if inv_hosts i2 = [] then i2\<lparr>inv_hosts := inv_hosts p\<rparr> else i2)
           in if inv_entry_groups i3 = [] then i3\<lparr>inv_entry_groups := inv_entry_groups p\<rparr> else i3))"

fun first_key :: "b64 list \<Rightarrow> string \<Rightarrow> string result" where
  "first_key [] k = Inl (Errorf ''vless_encryption_key is not a 32-byte base64 value'' [])"
| "first_key (e # es) k =
     (case b64_decode e k of
        Some b \<Rightarrow> if length b = 32 then Inr (b64_encode RawURLEncoding b) else first_key es k
      | None \<Rightarrow> first_key es k)"

definition normalized_key :: "host \<Rightarrow> string result" where
  "normalized_key h =
     first_key [RawURLEncoding, URLEncoding, RawStdEncoding, StdEncoding] (host_key h)"

definition validate_host :: "host \<Rightarrow> unit result" where
  "validate_host h =
     rbind (rcheck (host_slug h \<noteq> []) (Errorf ''a host has an empty slug'' [])) (\<lambda>_.
     rbind (rwrap (\<lambda>e. Errorf ''host %s: %w'' [AStr (host_slug h), AErr e]) (normalized_key h)) (\<lambda>_.
     Inr ()))"

definition validate_group :: "entry_group \<Rightarrow> unit result" where
  "validate_group g =
     rcheck (group_ipv4 g \<noteq> []) (Errorf ''entry group %q has no address'' [AStr (group_name g)])"

definition validate :: "inventory \<Rightarrow> unit result" where
  "validate iv =
     rbind (rcheck (inv_client_id iv \<noteq> []) (Errorf ''client_id is empty'' [])) (\<lambda>_.
     rbind (rcheck (inv_root_domains iv \<noteq> []) (Errorf ''root_domains is empty'' [])) (\<lambda>_.
     rbind (rcheck (inv_hosts iv \<noteq> []) (Errorf ''hosts is empty'' [])) (\<lambda>_.
     rbind (rcheck (inv_entry_groups iv \<noteq> []) (Errorf ''entry_groups is empty'' [])) (\<lambda>_.
     rbind (for_each validate_host (inv_hosts iv)) (\<lambda>_.
     for_each validate_group (inv_entry_groups iv))))))"

definition select_host :: "inventory \<Rightarrow> string \<Rightarrow> host result" where
  "select_host iv slug =
     (case find (\<lambda>h. slug \<noteq> [] \<and> host_slug h = slug \<or> slug = [] \<and> host_online h) (inv_hosts iv) of
        Some h \<Rightarrow> Inr h
      | None \<Rightarrow>
          if slug = [] then Inl (Errorf ''no online host in inventory'' [])
          else Inl (Errorf ''no host with slug %q'' [AStr slug]))"

definition select_group :: "(string \<Rightarrow> string \<Rightarrow> bool) \<Rightarrow> inventory \<Rightarrow> string \<Rightarrow> entry_group result" where
  "select_group eqf iv name =
     (if name = [] then
        (case inv_entry_groups iv of
           [] \<Rightarrow> Inl (Panic ''index out of range'')
         | g # _ \<Rightarrow> Inr g)
      else case find (\<lambda>g. eqf (group_name g) name \<or> contains (group_name g) name) (inv_entry_groups iv) of
             Some g \<Rightarrow> Inr g
           | None \<Rightarrow> Inl (Errorf ''no entry group matching %q'' [AStr name]))"

definition select_root :: "(nat \<Rightarrow> nat) \<Rightarrow> inventory \<Rightarrow> string \<Rightarrow> string \<Rightarrow> string result" where
  "select_root pick iv pinned cached =
     (if pinned \<noteq> [] then
        (if pinned \<notin> set (inv_root_domains iv) then
           Inl (Errorf ''root domain %q is not in the inventory pool'' [AStr pinned])
         else Inr pinned)
      else if cached \<noteq> [] \<and> cached \<in> set (inv_root_domains iv) then Inr cached
      else if inv_root_domains iv = [] then Inl (Panic ''invalid argument to N'')
      else Inr (inv_root_domains iv ! pick (length (inv_root_domains iv))))"

section \<open>The JSON form\<close>

definition enc_list :: "('a \<Rightarrow> json) \<Rightarrow> 'a list \<Rightarrow> json" where
  "enc_list e xs = (if xs = [] then JNull else JArr (map e xs))"

definition enc_map :: "('a \<Rightarrow> json) \<Rightarrow> (string, 'a) gomap \<Rightarrow> json" where
  "enc_map e m = (if m = [] then JNull else JObj (map (\<lambda>(k, x). (k, e x)) m))"

definition front_json :: "front_proxy \<Rightarrow> json" where
  "front_json f = JObj
     [(''endpoint'', JStr (front_endpoint f)), (''headers'', enc_map JStr (front_headers f))]"

definition group_json :: "entry_group \<Rightarrow> json" where
  "group_json g = JObj
     ([(''name'', JStr (group_name g)), (''ipv4'', enc_list JStr (group_ipv4 g))]
      @ (case group_front g of None \<Rightarrow> [] | Some f \<Rightarrow> [(''front_proxy'', front_json f)]))"

definition host_json :: "host \<Rightarrow> json" where
  "host_json h = JObj
     [(''slug'', JStr (host_slug h)), (''name'', JStr (host_name h)),
      (''vless_encryption_key'', JStr (host_key h)), (''online'', JBool (host_online h))]"

definition inventory_json :: "inventory \<Rightarrow> json" where
  "inventory_json iv = JObj
     [(''client_id'', JStr (inv_client_id iv)),
      (''root_domains'', enc_list JStr (inv_root_domains iv)),
      (''hosts'', enc_list host_json (inv_hosts iv)),
      (''entry_groups'', enc_list group_json (inv_entry_groups iv))]"

definition front_field :: "front_proxy field_decoder" where
  "front_field cur key j =
     (if key_is ''endpoint'' key then field_into dec_string front_endpoint (\<lambda>v. front_endpoint_update (\<lambda>_. v)) cur j
      else if key_is ''headers'' key then
        field_into (dec_map dec_string []) front_headers (\<lambda>v. front_headers_update (\<lambda>_. v)) cur j
      else (cur, True))"

definition group_field :: "entry_group field_decoder" where
  "group_field cur key j =
     (if key_is ''name'' key then field_into dec_string group_name (\<lambda>v. group_name_update (\<lambda>_. v)) cur j
      else if key_is ''ipv4'' key then
        field_into (dec_slice dec_string []) group_ipv4 (\<lambda>v. group_ipv4_update (\<lambda>_. v)) cur j
      else if key_is ''front_proxy'' key then
        field_into (dec_ptr (dec_struct front_field) zero_front) group_front (\<lambda>v. group_front_update (\<lambda>_. v)) cur j
      else (cur, True))"

definition host_field :: "host field_decoder" where
  "host_field cur key j =
     (if key_is ''slug'' key then field_into dec_string host_slug (\<lambda>v. host_slug_update (\<lambda>_. v)) cur j
      else if key_is ''name'' key then field_into dec_string host_name (\<lambda>v. host_name_update (\<lambda>_. v)) cur j
      else if key_is ''vless_encryption_key'' key then
        field_into dec_string host_key (\<lambda>v. host_key_update (\<lambda>_. v)) cur j
      else if key_is ''online'' key then field_into dec_bool host_online (\<lambda>v. host_online_update (\<lambda>_. v)) cur j
      else (cur, True))"

definition inventory_field :: "inventory field_decoder" where
  "inventory_field cur key j =
     (if key_is ''client_id'' key then
        field_into dec_string inv_client_id (\<lambda>v. inv_client_id_update (\<lambda>_. v)) cur j
      else if key_is ''root_domains'' key then
        field_into (dec_slice dec_string []) inv_root_domains (\<lambda>v. inv_root_domains_update (\<lambda>_. v)) cur j
      else if key_is ''hosts'' key then
        field_into (dec_slice (dec_struct host_field) zero_host) inv_hosts (\<lambda>v. inv_hosts_update (\<lambda>_. v)) cur j
      else if key_is ''entry_groups'' key then
        field_into (dec_slice (dec_struct group_field) zero_group) inv_entry_groups
          (\<lambda>v. inv_entry_groups_update (\<lambda>_. v)) cur j
      else (cur, True))"

definition dec_inventory :: "inventory decoder" where
  "dec_inventory = dec_struct inventory_field"

definition load :: "string \<Rightarrow> fs \<Rightarrow> inventory result" where
  "load path fs =
     rbind (rwrap (\<lambda>e. Errorf ''read inventory: %w'' [AErr e]) (read_file path fs)) (\<lambda>data.
     rbind (rwrap (\<lambda>e. Errorf ''parse inventory %s: %w'' [AStr path, AErr e])
              (unmarshal dec_inventory zero_inventory data)) (\<lambda>iv.
     rbind (rwrap (\<lambda>e. Errorf ''invalid inventory %s: %w'' [AStr path, AErr e]) (validate iv)) (\<lambda>_.
     Inr iv)))"

section \<open>Keys\<close>

lemma first_key_Inr:
  "first_key es k = Inr k' \<Longrightarrow>
   \<exists>e\<in>set es. \<exists>b. b64_decode e k = Some b \<and> length b = 32 \<and> k' = b64_encode RawURLEncoding b"
  by (induction es) (auto split: option.splits if_splits)

lemma first_key_Inl:
  "first_key es k = Inl err \<longleftrightarrow>
     (\<forall>e\<in>set es. \<forall>b. b64_decode e k = Some b \<longrightarrow> length b \<noteq> 32)
     \<and> err = Errorf ''vless_encryption_key is not a 32-byte base64 value'' []"
  by (induction es) (auto split: option.splits)

lemma first_key_encoded:
  "e \<in> set es \<Longrightarrow> length b = 32 \<Longrightarrow> first_key es (b64_encode e b) = Inr (b64_encode RawURLEncoding b)"
proof (induction es)
  case (Cons e' es)
  show ?case
  proof (cases "b64_decode e' (b64_encode e b)")
    case None
    then have "e \<noteq> e'" by (auto simp: b64_roundtrip)
    with Cons None show ?thesis by simp
  next
    case (Some t)
    with b64_cross [OF Some] Cons.prems show ?thesis by simp
  qed
qed simp

lemma every_encoding: "e \<in> {RawURLEncoding, URLEncoding, RawStdEncoding, StdEncoding}"
  by (cases e) auto

lemma normalized_key_encoded:
  "length b = 32 \<Longrightarrow> host_key h = b64_encode e b \<Longrightarrow>
   normalized_key h = Inr (b64_encode RawURLEncoding b)"
  unfolding normalized_key_def using every_encoding [of e]
  by (simp del: first_key.simps add: first_key_encoded)

lemma normalized_key_form:
  assumes "normalized_key h = Inr k"
  obtains b where "length b = 32" "k = b64_encode RawURLEncoding b"
  using first_key_Inr [of _ "host_key h" k] assms unfolding normalized_key_def by blast

text \<open>
  Two alphabets that both accept a text read the same bytes from it, so the order in which
  the encodings are tried does not matter.
\<close>

lemma b64_val_agree: "b64_val u c = Some m \<Longrightarrow> b64_val u' c = Some n \<Longrightarrow> m = n"
  by (auto simp: b64_val_def Let_def split: if_splits)

lemma decode_agree:
  "decode2 u x y = Some s \<Longrightarrow> decode2 u' x y = Some t \<Longrightarrow> s = t"
  "decode3 u x y z = Some s \<Longrightarrow> decode3 u' x y z = Some t \<Longrightarrow> s = t"
  "decode4 u x y z w = Some s \<Longrightarrow> decode4 u' x y z w = Some t \<Longrightarrow> s = t"
  by (auto simp: decode2_def decode3_def decode4_def bind_eq_Some_conv dest: b64_val_agree)

lemma decode4_pad: "decode4 u x y z pad_char = None"
  by (auto simp: decode4_def split: option.split bind_splits)

lemma b64_quanta_agree: "b64_quanta e k = Some s \<Longrightarrow> b64_quanta e' k = Some t \<Longrightarrow> s = t"
proof (induction e k arbitrary: s t rule: b64_quanta.induct)
  case (5 e x y z w k)
  show ?case
  proof (cases "w = pad_char")
    case True
    with "5.prems" show ?thesis
      by (simp add: decode4_pad split: if_splits) (metis decode_agree(1,2))+
  next
    case False
    with "5.prems" obtain q r q' r' where
      "decode4 (url_alphabet e) x y z w = Some q" "b64_quanta e k = Some r" "s = q @ r"
      "decode4 (url_alphabet e') x y z w = Some q'" "b64_quanta e' k = Some r'" "t = q' @ r'"
      by (clarsimp simp: bind_eq_Some_conv)
    with False "5.IH" show ?thesis by (metis decode_agree(3))
  qed
qed (auto split: if_splits dest: decode_agree)

lemma first_key_order:
  assumes "first_key es k = Inr r" "set es' = set es"
  shows "first_key es' k = Inr r"
proof -
  obtain e b where e: "e \<in> set es" "b64_decode e k = Some b" "length b = 32"
    and r: "r = b64_encode RawURLEncoding b"
    using first_key_Inr [OF assms(1)] by auto
  have "\<exists>r'. first_key es' k = Inr r'"
    using e assms(2) first_key_Inl [of es' k] by (cases "first_key es' k") auto
  then obtain r' e' b' where r': "first_key es' k = Inr r'" "b64_decode e' k = Some b'"
      "r' = b64_encode RawURLEncoding b'"
    using first_key_Inr by metis
  have "b' = b" using b64_quanta_agree e(2) r'(2) unfolding b64_decode_def by blast
  with r' r show ?thesis by simp
qed

section \<open>Validation\<close>

definition good_host :: "host \<Rightarrow> bool" where
  "good_host h \<longleftrightarrow> host_slug h \<noteq> [] \<and>
     (\<exists>e b. b64_decode e (host_key h) = Some b \<and> length b = 32)"

definition good_inventory :: "inventory \<Rightarrow> bool" where
  "good_inventory iv \<longleftrightarrow>
     inv_client_id iv \<noteq> [] \<and> inv_root_domains iv \<noteq> [] \<and>
     inv_hosts iv \<noteq> [] \<and> inv_entry_groups iv \<noteq> [] \<and>
     (\<forall>h\<in>set (inv_hosts iv). good_host h) \<and>
     (\<forall>g\<in>set (inv_entry_groups iv). group_ipv4 g \<noteq> [])"

lemma normalized_key_ok: "is_ok (normalized_key h) \<longleftrightarrow> (\<exists>e b. b64_decode e (host_key h) = Some b \<and> length b = 32)"
proof (cases "normalized_key h")
  case (Inl err)
  note none = first_key_Inl [THEN iffD1, OF Inl [unfolded normalized_key_def], THEN conjunct1]
  have "length b \<noteq> 32" if "b64_decode e (host_key h) = Some b" for e b
    using bspec [OF none, of e] every_encoding [of e] that by simp
  with Inl show ?thesis by auto
next
  case (Inr k)
  have "\<exists>e b. b64_decode e (host_key h) = Some b \<and> length b = 32"
    using first_key_Inr [OF Inr [unfolded normalized_key_def]] by auto
  with Inr show ?thesis by simp
qed

lemma validate_host_ok: "validate_host h = Inr () \<longleftrightarrow> good_host h"
  using normalized_key_ok [of h] by (auto simp: validate_host_def good_host_def res_simps)

lemma validates_good: "validate iv = Inr () \<longleftrightarrow> good_inventory iv"
  by (auto simp: validate_def good_inventory_def res_simps validate_host_ok validate_group_def)

text \<open>
  \<open>Validate\<close> accepts exactly the inventories with a client id, a root domain, a host and
  an entry group, whose hosts all have a slug and a key that one of the four base64 variants
  decodes to 32 bytes, and whose groups all have an address.
\<close>

lemma validate_iff: "validate iv = Inr () \<longleftrightarrow> good_inventory iv"
  by (rule validates_good)

text \<open>
  C27: A key that \<open>NormalizedKey\<close> returns is the unpadded URL form (43 characters) of 32
  bytes that the stored key encodes, and normalizing it again changes nothing.
\<close>

lemma normalized_key_canonical:
  assumes "normalized_key h = Inr k"
  shows "length k = 43 \<and> normalized_key (h\<lparr>host_key := k\<rparr>) = Inr k
    \<and> (\<exists>e b. b64_decode e (host_key h) = Some b \<and> length b = 32 \<and> k = b64_encode RawURLEncoding b)"
proof -
  obtain e b where b: "b64_decode e (host_key h) = Some b" "length b = 32" "k = b64_encode RawURLEncoding b"
    using first_key_Inr [OF assms [unfolded normalized_key_def]] by blast
  moreover have "normalized_key (h\<lparr>host_key := k\<rparr>) = Inr k"
    using normalized_key_encoded [of b "h\<lparr>host_key := k\<rparr>" RawURLEncoding] b by simp
  ultimately show ?thesis by (auto simp: length_b64_encode_raw)
qed

definition key_bytes :: string where
  "key_bytes = map char_of [0..<32 :: nat]"

definition sample_host :: host where
  "sample_host = \<lparr>host_slug = ''tyo-01'', host_name = ''tokyo'',
     host_key = b64_encode StdEncoding key_bytes, host_online = True\<rparr>"

lemma length_key_bytes [simp]: "length key_bytes = 32"
  by (simp add: key_bytes_def)

lemma sample_host_key: "normalized_key sample_host = Inr (b64_encode RawURLEncoding key_bytes)"
  by (rule normalized_key_encoded) (simp_all add: sample_host_def)

lemma normalized_key_canonical_witness:
  "length (b64_encode RawURLEncoding key_bytes) = 43
    \<and> normalized_key (sample_host\<lparr>host_key := b64_encode RawURLEncoding key_bytes\<rparr>)
        = Inr (b64_encode RawURLEncoding key_bytes)"
  using normalized_key_canonical [OF sample_host_key] by simp

text \<open>
  The same 32 bytes give the same normalized key whichever of the four base64 variants
  the inventory used, and the order in which the variants are tried is irrelevant for any key.
\<close>

lemma normalized_key_variants:
  "(length b = 32 \<longrightarrow> normalized_key (h\<lparr>host_key := b64_encode e b\<rparr>) = Inr (b64_encode RawURLEncoding b))
    \<and> (set es = {RawURLEncoding, URLEncoding, RawStdEncoding, StdEncoding} \<longrightarrow>
       normalized_key h = Inr k \<longrightarrow> first_key es (host_key h) = Inr k)"
  using first_key_order [of "[RawURLEncoding, URLEncoding, RawStdEncoding, StdEncoding]" "host_key h" k es]
    normalized_key_encoded [of b "h\<lparr>host_key := b64_encode e b\<rparr>" e]
  by (simp del: first_key.simps add: normalized_key_def)

lemma normalized_key_variants_witness:
  "normalized_key (sample_host\<lparr>host_key := b64_encode URLEncoding key_bytes\<rparr>)
     = Inr (b64_encode RawURLEncoding key_bytes)
    \<and> first_key [StdEncoding, RawURLEncoding, RawStdEncoding, URLEncoding] (host_key sample_host)
       = Inr (b64_encode RawURLEncoding key_bytes)"
  using normalized_key_variants [where b = key_bytes and h = sample_host and e = URLEncoding
      and es = "[StdEncoding, RawURLEncoding, RawStdEncoding, URLEncoding]"
      and k = "b64_encode RawURLEncoding key_bytes"]
    sample_host_key by (auto simp del: first_key.simps)

section \<open>Merging\<close>

lemma fill_missing_fields:
  "inv_client_id (fill_missing_from iv (Some p)) = (if inv_client_id iv = [] then inv_client_id p else inv_client_id iv)"
  "inv_root_domains (fill_missing_from iv (Some p)) =
     (if inv_root_domains iv = [] then inv_root_domains p else inv_root_domains iv)"
  "inv_hosts (fill_missing_from iv (Some p)) = (if inv_hosts iv = [] then inv_hosts p else inv_hosts iv)"
  "inv_entry_groups (fill_missing_from iv (Some p)) =
     (if inv_entry_groups iv = [] then inv_entry_groups p else inv_entry_groups iv)"
  by (simp_all add: fill_missing_from_def Let_def)

lemma fill_missing_None [simp]: "fill_missing_from iv None = iv"
  by (simp add: fill_missing_from_def)

lemma fill_missing_idem: "fill_missing_from (fill_missing_from iv p) p = fill_missing_from iv p"
  by (cases p) (simp_all add: fill_missing_fields inventory.equality)

text \<open>
  C26: Merging a partial update into a valid inventory gives a valid one exactly when the
  hosts and groups the update ships are well formed, whichever fields it omits; a second merge
  with the same inventory changes nothing.
\<close>

lemma fill_missing_valid:
  assumes "validate p = Inr ()"
  shows "(validate (fill_missing_from iv (Some p)) = Inr () \<longleftrightarrow>
      (\<forall>h\<in>set (inv_hosts iv). validate_host h = Inr ()) \<and>
      (\<forall>g\<in>set (inv_entry_groups iv). validate_group g = Inr ()))
    \<and> fill_missing_from (fill_missing_from iv (Some p)) (Some p) = fill_missing_from iv (Some p)"
  using assms unfolding validates_good validate_host_ok fill_missing_idem
  by (auto simp: good_inventory_def fill_missing_fields validate_group_def res_simps)

definition sample_inventory :: inventory where
  "sample_inventory = \<lparr>inv_client_id = ''id'', inv_root_domains = [''a.example'', ''b.example''],
     inv_hosts = [sample_host],
     inv_entry_groups = [\<lparr>group_name = ''south'', group_ipv4 = [''192.0.2.1''], group_front = None\<rparr>]\<rparr>"

lemma sample_valid: "validate sample_inventory = Inr ()"
  by (simp add: validate_def validate_host_def validate_group_def sample_inventory_def sample_host_key)
    (simp add: sample_host_def)

lemma fill_missing_valid_witness:
  "validate (fill_missing_from (zero_inventory\<lparr>inv_client_id := ''new''\<rparr>) (Some sample_inventory)) = Inr ()"
  using fill_missing_valid [OF sample_valid, of "zero_inventory\<lparr>inv_client_id := ''new''\<rparr>"]
  by (simp add: zero_inventory_def)

section \<open>Selections\<close>

lemma select_group_default:
  "validate iv = Inr () \<Longrightarrow> select_group eqf iv [] = Inr (hd (inv_entry_groups iv))"
  by (auto simp: validates_good good_inventory_def select_group_def split: list.split)

lemma select_host_Inr:
  "select_host iv slug = Inr h \<longleftrightarrow>
     (\<exists>i < length (inv_hosts iv). inv_hosts iv ! i = h
        \<and> (if slug = [] then host_online h else host_slug h = slug)
        \<and> (\<forall>j < i. if slug = [] then \<not> host_online (inv_hosts iv ! j) else host_slug (inv_hosts iv ! j) \<noteq> slug))"
proof -
  have "select_host iv slug = Inr h \<longleftrightarrow>
      find (\<lambda>h. slug \<noteq> [] \<and> host_slug h = slug \<or> slug = [] \<and> host_online h) (inv_hosts iv) = Some h"
    by (auto simp: select_host_def split: option.split)
  then show ?thesis
    unfolding find_index by (cases "slug = []") simp_all
qed



text \<open>
  The root is sticky: as long as the chosen root stays in the pool, passing it back
  as the cached one returns it again, whatever else changed in the inventory and whatever
  the random choice would be.
\<close>

lemma select_root_sticky:
  assumes "select_root pick iv [] cached = Inr r" "r \<noteq> []" "r \<in> set (inv_root_domains iv')"
  shows "select_root pick' iv' [] r = Inr r"
  using assms by (simp add: select_root_def)

lemma select_root_sticky_witness:
  "select_root (\<lambda>n. n - 1) (sample_inventory\<lparr>inv_root_domains := [''c.example'', ''a.example'']\<rparr>) [] ''a.example''
     = Inr ''a.example''"
  by (rule select_root_sticky [where pick = "\<lambda>n. 0" and iv = sample_inventory and cached = "[]"])
    (simp_all add: select_root_def sample_inventory_def)


section \<open>The JSON form is read back\<close>

definition utf8_front :: "front_proxy \<Rightarrow> bool" where
  "utf8_front f \<longleftrightarrow> valid_utf8 (front_endpoint f) \<and> map_ok (front_headers f) \<and>
     (\<forall>(k, v) \<in> set (front_headers f). valid_utf8 k \<and> valid_utf8 v)"

definition utf8_group :: "entry_group \<Rightarrow> bool" where
  "utf8_group g \<longleftrightarrow> valid_utf8 (group_name g) \<and> (\<forall>a \<in> set (group_ipv4 g). valid_utf8 a) \<and>
     (\<forall>f. group_front g = Some f \<longrightarrow> utf8_front f)"

definition utf8_host :: "host \<Rightarrow> bool" where
  "utf8_host h \<longleftrightarrow> valid_utf8 (host_slug h) \<and> valid_utf8 (host_name h) \<and> valid_utf8 (host_key h)"

definition utf8_inventory :: "inventory \<Rightarrow> bool" where
  "utf8_inventory iv \<longleftrightarrow> valid_utf8 (inv_client_id iv) \<and>
     (\<forall>r \<in> set (inv_root_domains iv). valid_utf8 r) \<and>
     (\<forall>h \<in> set (inv_hosts iv). utf8_host h) \<and> (\<forall>g \<in> set (inv_entry_groups iv). utf8_group g)"

lemma inventory_keys [dec_simps, simp]:
  "\<not> key_is ''endpoint'' ''headers''"
  "\<not> key_is ''name'' ''ipv4''" "\<not> key_is ''name'' ''front_proxy''" "\<not> key_is ''ipv4'' ''front_proxy''"
  "\<not> key_is ''slug'' ''name''" "\<not> key_is ''slug'' ''vless_encryption_key''" "\<not> key_is ''slug'' ''online''"
  "\<not> key_is ''name'' ''vless_encryption_key''" "\<not> key_is ''name'' ''online''"
  "\<not> key_is ''vless_encryption_key'' ''online''"
  "\<not> key_is ''client_id'' ''root_domains''" "\<not> key_is ''client_id'' ''hosts''"
  "\<not> key_is ''client_id'' ''entry_groups''" "\<not> key_is ''root_domains'' ''hosts''"
  "\<not> key_is ''root_domains'' ''entry_groups''" "\<not> key_is ''hosts'' ''entry_groups''"
  by code_simp+

lemma dec_enc_list [dec_simps]:
  "(\<And>x. x \<in> set xs \<Longrightarrow> d z (e x) = (x, True)) \<Longrightarrow> dec_slice d z [] (enc_list e xs) = (xs, True)"
  using dec_slice_fresh [of xs d z e] by (auto simp: enc_list_def dec_slice_def)

lemma dec_enc_map [dec_simps]:
  "map_ok m \<Longrightarrow> (\<And>x. x \<in> snd ` set m \<Longrightarrow> d z (e x) = (x, True)) \<Longrightarrow>
   dec_map d z [] (enc_map e m) = (m, True)"
  using dec_map_map [of m d z e] by (auto simp: enc_map_def dec_map_def)

text \<open>Each type, over its zero value: every list of structs decodes its elements there.\<close>

lemma dec_front_json: "utf8_front f \<Longrightarrow> dec_struct front_field zero_front (front_json f) = (f, True)"
  by (simp add: front_json_def front_field_def field_into_def zero_front_def
      utf8_front_def dec_enc_map)

lemma front_json_not_null [simp]: "front_json f \<noteq> JNull"
  by (simp add: front_json_def)

lemma dec_group_json: "utf8_group g \<Longrightarrow> dec_struct group_field zero_group (group_json g) = (g, True)"
  by (cases g) (auto simp: group_json_def group_field_def field_into_def zero_group_def
      utf8_group_def dec_enc_list dec_ptr_fresh dec_front_json split: option.split)

lemma dec_host_json: "dec_struct host_field zero_host (host_json h) = (h, True)"
  by (simp add: host_json_def host_field_def field_into_def zero_host_def)

lemma dec_inventory_json:
  "utf8_inventory iv \<Longrightarrow> dec_inventory zero_inventory (inventory_json iv) = (iv, True)"
  by (simp add: dec_inventory_def inventory_json_def inventory_field_def field_into_def
      zero_inventory_def utf8_inventory_def dec_enc_list dec_host_json dec_group_json)

lemma json_good_enc_list [simp]: "json_good (enc_list e xs) \<longleftrightarrow> (\<forall>x \<in> set xs. json_good (e x))"
  by (auto simp: enc_list_def list_all_iff)

lemma json_good_enc_map [simp]:
  "json_good (enc_map e m) \<longleftrightarrow> (\<forall>(k, x) \<in> set m. valid_utf8 k \<and> json_good (e x))"
  by (auto simp: enc_map_def list_all_iff)

lemma foldr_max_le: "foldr (\<lambda>x. max (f x)) xs 0 \<le> (n :: nat) \<longleftrightarrow> (\<forall>x \<in> set xs. f x \<le> n)"
  by (induction xs) auto

lemma jdepth_enc_list: "(\<And>x. x \<in> set xs \<Longrightarrow> jdepth (e x) \<le> n) \<Longrightarrow> jdepth (enc_list e xs) \<le> Suc n"
  by (auto simp: enc_list_def foldr_max_le)

lemma jdepth_enc_map:
  "(\<And>k x. (k, x) \<in> set m \<Longrightarrow> jdepth (e x) \<le> n) \<Longrightarrow> jdepth (enc_map e m) \<le> Suc n"
  by (auto simp: enc_map_def foldr_max_le)

lemma valid_utf8_keys [simp]:
  "valid_utf8 ''endpoint''" "valid_utf8 ''headers''" "valid_utf8 ''name''" "valid_utf8 ''ipv4''"
  "valid_utf8 ''front_proxy''" "valid_utf8 ''slug''" "valid_utf8 ''vless_encryption_key''"
  "valid_utf8 ''online''" "valid_utf8 ''client_id''" "valid_utf8 ''root_domains''"
  "valid_utf8 ''hosts''" "valid_utf8 ''entry_groups''"
  by code_simp+

lemma valid_utf8_b64 [simp]: "valid_utf8 (b64_encode e s)"
  by (rule valid_utf8_all_ascii) (auto dest: b64_encode_plain plain_char_ascii)

lemma json_good_inventory:
  assumes "utf8_inventory iv"
  shows "json_good (inventory_json iv)"
proof -
  have "json_good (front_json f)" if "utf8_front f" for f
    using that by (auto simp: front_json_def utf8_front_def)
  then have "json_good (group_json g)" if "utf8_group g" for g
    using that by (auto simp: group_json_def utf8_group_def split: option.split)
  with assms show ?thesis
    by (auto simp: inventory_json_def utf8_inventory_def host_json_def utf8_host_def)
qed

lemma jdepth_inventory: "jdepth (inventory_json iv) \<le> 6"
proof -
  have "jdepth (front_json f) \<le> 2" for f
    using jdepth_enc_map [of "front_headers f" JStr 0] by (simp add: front_json_def)
  then have "jdepth (group_json g) \<le> 3" for g
    using jdepth_enc_list [of "group_ipv4 g" JStr 0] by (simp add: group_json_def split: option.split)
  then have "jdepth (enc_list group_json (inv_entry_groups iv)) \<le> Suc 3"
    by (intro jdepth_enc_list)
  moreover have "jdepth (enc_list host_json (inv_hosts iv)) \<le> Suc 1"
    by (intro jdepth_enc_list) (simp add: host_json_def)
  moreover have "jdepth (enc_list JStr (inv_root_domains iv)) \<le> Suc 0"
    by (intro jdepth_enc_list) simp
  ultimately show ?thesis by (simp add: inventory_json_def)
qed

text \<open>What is written for an inventory (\<open>json.MarshalIndent\<close> and a newline) is read back.\<close>

definition inventory_text :: "inventory \<Rightarrow> string" where
  "inventory_text iv = marshal_indent (inventory_json iv) @ [CHR 0x0A]"

lemma unmarshal_inventory_text:
  "utf8_inventory iv \<Longrightarrow> unmarshal dec_inventory zero_inventory (inventory_text iv) = Inr iv"
  unfolding inventory_text_def using jdepth_inventory [of iv]
  by (intro unmarshal_marshal) (simp_all add: json_good_inventory dec_inventory_json)

interpretation inventory_doc: codec inventory_text
    "\<lambda>s. case unmarshal dec_inventory zero_inventory s of Inl _ \<Rightarrow> None | Inr iv \<Rightarrow> Some iv" utf8_inventory
  by unfold_locales (simp add: unmarshal_inventory_text)

text \<open>
  \<open>Load\<close> returns an inventory that was written to its file, and refuses every file whose
  inventory \<open>Validate\<close> refuses: what it returns is always valid.
\<close>

lemma load_text:
  "read_file path fs = Inr (inventory_text iv) \<Longrightarrow> utf8_inventory iv \<Longrightarrow> validate iv = Inr () \<Longrightarrow>
   load path fs = Inr iv"
  by (simp add: load_def unmarshal_inventory_text)

lemma load_valid: "load path fs = Inr iv \<Longrightarrow> validate iv = Inr ()"
  by (auto simp: load_def res_simps)

end
