(* ===== verification/InventoryDiff.thy ===== *)
theory InventoryDiff
  imports Inventory
begin

text \<open>
  \<open>internal/inventory/diff.go\<close>: what changed between two inventories. The loops over Go
  maps either sort what they collect or run over sorted keys, so the order of a map never
  shows; the two loops of \<open>Compare\<close> that fill several lists at once are one fold over the
  sorted keys here too.
\<close>

record changes =
  ch_hosts_added :: "string list"
  ch_hosts_removed :: "string list"
  ch_went_online :: "string list"
  ch_went_offline :: "string list"
  ch_keys_rotated :: "string list"
  ch_groups_added :: "string list"
  ch_groups_removed :: "string list"
  ch_pools_changed :: "string list"
  ch_roots_added :: "string list"
  ch_roots_removed :: "string list"

definition no_changes :: changes where
  "no_changes = \<lparr>ch_hosts_added = [], ch_hosts_removed = [], ch_went_online = [], ch_went_offline = [],
     ch_keys_rotated = [], ch_groups_added = [], ch_groups_removed = [], ch_pools_changed = [],
     ch_roots_added = [], ch_roots_removed = []\<rparr>"

definition changes_empty :: "changes \<Rightarrow> bool" where
  "changes_empty c \<longleftrightarrow>
     ch_hosts_added c = [] \<and> ch_hosts_removed c = [] \<and>
     ch_went_online c = [] \<and> ch_went_offline c = [] \<and>
     ch_keys_rotated c = [] \<and> ch_groups_added c = [] \<and>
     ch_groups_removed c = [] \<and> ch_pools_changed c = [] \<and>
     ch_roots_added c = [] \<and> ch_roots_removed c = []"

definition add_line :: "string \<Rightarrow> string list \<Rightarrow> string list \<Rightarrow> string list" where
  "add_line label values lines =
     (if values \<noteq> [] then lines @ [label @ '': '' @ join '', '' values] else lines)"

definition changes_string :: "changes \<Rightarrow> string" where
  "changes_string c = join ''; ''
     (add_line ''root domains removed'' (ch_roots_removed c)
     (add_line ''root domains added'' (ch_roots_added c)
     (add_line ''address pools changed'' (ch_pools_changed c)
     (add_line ''ingresses removed'' (ch_groups_removed c)
     (add_line ''ingresses added'' (ch_groups_added c)
     (add_line ''keys rotated'' (ch_keys_rotated c)
     (add_line ''went offline'' (ch_went_offline c)
     (add_line ''came online'' (ch_went_online c)
     (add_line ''exits removed'' (ch_hosts_removed c)
     (add_line ''exits added'' (ch_hosts_added c) []))))))))))"

definition hosts_by_slug :: "inventory \<Rightarrow> (string, host) gomap" where
  "hosts_by_slug iv = mput_all host_slug (\<lambda>h. h) (inv_hosts iv) []"

definition groups_by_name :: "inventory \<Rightarrow> (string, entry_group) gomap" where
  "groups_by_name iv = mput_all group_name (\<lambda>g. g) (inv_entry_groups iv) []"

definition sorted_missing :: "(string, 'a) gomap \<Rightarrow> (string, 'b) gomap \<Rightarrow> string list" where
  "sorted_missing have from' = sort (filter (\<lambda>k. \<not> mhas from' k) (mkeys have))"

definition sorted_difference :: "string list \<Rightarrow> string list \<Rightarrow> string list" where
  "sorted_difference have from' = sort (filter (\<lambda>v. v \<notin> set from') have)"

definition same_addresses :: "string list \<Rightarrow> string list \<Rightarrow> bool" where
  "same_addresses a b \<longleftrightarrow> length a = length b \<and> sort a = sort b"

definition compare_host :: "(string, host) gomap \<Rightarrow> (string, host) gomap \<Rightarrow> string \<Rightarrow> changes \<Rightarrow> changes" where
  "compare_host prevHosts nextHosts slug c =
     (case map_of prevHosts slug of
        None \<Rightarrow> c
      | Some before \<Rightarrow>
          (let after = the (map_of nextHosts slug);
               c1 = (if \<not> host_online before \<and> host_online after then
                       c\<lparr>ch_went_online := ch_went_online c @ [slug]\<rparr>
                     else if host_online before \<and> \<not> host_online after then
                       c\<lparr>ch_went_offline := ch_went_offline c @ [slug]\<rparr>
                     else c)
           in if host_key before \<noteq> host_key after then
                c1\<lparr>ch_keys_rotated := ch_keys_rotated c1 @ [slug]\<rparr>
              else c1))"

definition compare_group :: "(string, entry_group) gomap \<Rightarrow> (string, entry_group) gomap \<Rightarrow> string
    \<Rightarrow> changes \<Rightarrow> changes" where
  "compare_group prevGroups nextGroups name c =
     (case map_of prevGroups name of
        None \<Rightarrow> c
      | Some before \<Rightarrow>
          if \<not> same_addresses (group_ipv4 before) (group_ipv4 (the (map_of nextGroups name))) then
            c\<lparr>ch_pools_changed := ch_pools_changed c @ [name]\<rparr>
          else c)"

definition compare_inv :: "inventory option \<Rightarrow> inventory option \<Rightarrow> changes" where
  "compare_inv prev next =
     (case (prev, next) of
        (Some p, Some n) \<Rightarrow>
          (let c = no_changes;
               prevHosts = hosts_by_slug p;
               nextHosts = hosts_by_slug n;
               c = c\<lparr>ch_hosts_added := sorted_missing nextHosts prevHosts\<rparr>;
               c = c\<lparr>ch_hosts_removed := sorted_missing prevHosts nextHosts\<rparr>;
               c = fold (compare_host prevHosts nextHosts) (sort (mkeys nextHosts)) c;
               prevGroups = groups_by_name p;
               nextGroups = groups_by_name n;
               c = c\<lparr>ch_groups_added := sorted_missing nextGroups prevGroups\<rparr>;
               c = c\<lparr>ch_groups_removed := sorted_missing prevGroups nextGroups\<rparr>;
               c = fold (compare_group prevGroups nextGroups) (sort (mkeys nextGroups)) c;
               c = c\<lparr>ch_roots_added := sorted_difference (inv_root_domains n) (inv_root_domains p)\<rparr>
           in c\<lparr>ch_roots_removed := sorted_difference (inv_root_domains p) (inv_root_domains n)\<rparr>)
      | _ \<Rightarrow> no_changes)"

section \<open>The loops as filters\<close>

text \<open>The specification of the host loop: three filters of the keys common to both maps.\<close>

definition changed_hosts :: "(host \<Rightarrow> host \<Rightarrow> bool) \<Rightarrow> (string, host) gomap \<Rightarrow> (string, host) gomap \<Rightarrow> string list" where
  "changed_hosts P p n = filter (\<lambda>s. \<exists>b a. map_of p s = Some b \<and> map_of n s = Some a \<and> P b a) (mkeys n)"

definition came_online :: "host \<Rightarrow> host \<Rightarrow> bool" where
  "came_online b a \<longleftrightarrow> \<not> host_online b \<and> host_online a"

definition key_rotated :: "host \<Rightarrow> host \<Rightarrow> bool" where
  "key_rotated b a \<longleftrightarrow> host_key b \<noteq> host_key a"

definition changed_groups :: "(string, entry_group) gomap \<Rightarrow> (string, entry_group) gomap \<Rightarrow> string list" where
  "changed_groups p n = filter (\<lambda>s. \<exists>b a. map_of p s = Some b \<and> map_of n s = Some a
     \<and> \<not> same_addresses (group_ipv4 b) (group_ipv4 a)) (mkeys n)"

lemma compare_host_fold:
  assumes "\<forall>s \<in> set ks. map_of n s \<noteq> None"
  shows "fold (compare_host p n) ks c = c
    \<lparr>ch_went_online := ch_went_online c @
       filter (\<lambda>s. \<exists>b a. map_of p s = Some b \<and> map_of n s = Some a \<and> came_online b a) ks,
     ch_went_offline := ch_went_offline c @
       filter (\<lambda>s. \<exists>b a. map_of p s = Some b \<and> map_of n s = Some a \<and> came_online a b) ks,
     ch_keys_rotated := ch_keys_rotated c @
       filter (\<lambda>s. \<exists>b a. map_of p s = Some b \<and> map_of n s = Some a \<and> key_rotated b a) ks\<rparr>"
  using assms
proof (induction ks arbitrary: c)
  case Nil
  then show ?case by simp
next
  case (Cons s ks)
  then obtain a where "map_of n s = Some a" by auto
  with Cons show ?case
    by (cases "map_of p s") (auto simp: compare_host_def Let_def came_online_def key_rotated_def)
qed

lemma compare_group_fold:
  assumes "\<forall>s \<in> set ks. map_of n s \<noteq> None"
  shows "fold (compare_group p n) ks c = c
    \<lparr>ch_pools_changed := ch_pools_changed c @
       filter (\<lambda>s. \<exists>b a. map_of p s = Some b \<and> map_of n s = Some a
         \<and> \<not> same_addresses (group_ipv4 b) (group_ipv4 a)) ks\<rparr>"
  using assms
proof (induction ks arbitrary: c)
  case Nil
  then show ?case by simp
next
  case (Cons s ks)
  then obtain a where "map_of n s = Some a" by auto
  with Cons show ?case
    by (cases "map_of p s") (auto simp: compare_group_def)
qed

lemma maps_ok [simp]: "map_ok (hosts_by_slug iv)" "map_ok (groups_by_name iv)"
  by (simp_all add: hosts_by_slug_def groups_by_name_def)

lemma sort_mkeys [simp]: "map_ok m \<Longrightarrow> sort (mkeys m) = mkeys m"
  by (simp add: map_ok_sorted sorted_sort_id)

text \<open>
  The whole of \<open>Compare\<close> without loops.
\<close>

lemma compare_spec:
  "compare_inv (Some p) (Some n) =
    \<lparr>ch_hosts_added = sorted_missing (hosts_by_slug n) (hosts_by_slug p),
     ch_hosts_removed = sorted_missing (hosts_by_slug p) (hosts_by_slug n),
     ch_went_online = changed_hosts came_online (hosts_by_slug p) (hosts_by_slug n),
     ch_went_offline = changed_hosts (\<lambda>b a. came_online a b) (hosts_by_slug p) (hosts_by_slug n),
     ch_keys_rotated = changed_hosts key_rotated (hosts_by_slug p) (hosts_by_slug n),
     ch_groups_added = sorted_missing (groups_by_name n) (groups_by_name p),
     ch_groups_removed = sorted_missing (groups_by_name p) (groups_by_name n),
     ch_pools_changed = changed_groups (groups_by_name p) (groups_by_name n),
     ch_roots_added = sorted_difference (inv_root_domains n) (inv_root_domains p),
     ch_roots_removed = sorted_difference (inv_root_domains p) (inv_root_domains n)\<rparr>"
  by (simp add: compare_inv_def Let_def compare_host_fold compare_group_fold mkeys_iff no_changes_def
      changed_hosts_def changed_groups_def)

lemma compare_None [simp]: "compare_inv None n = no_changes" "compare_inv p None = no_changes"
  by (simp_all add: compare_inv_def split: option.split)

section \<open>Addresses\<close>

lemma same_addresses_iff: "same_addresses a b \<longleftrightarrow> mset a = mset b"
  by (auto simp: same_addresses_def sort_eq_iff_mset dest: mset_eq_length)

lemma same_addresses_sym: "same_addresses a b = same_addresses b a"
  by (auto simp: same_addresses_iff)

section \<open>Swapping the two inventories\<close>

lemma sorted_filter_keys_eq:
  fixes m :: "('k :: linorder, 'a) gomap" and n :: "('k, 'b) gomap"
  assumes "map_ok m" "map_ok n" "\<And>k. k \<in> set (mkeys m) \<and> P k \<longleftrightarrow> k \<in> set (mkeys n) \<and> Q k"
  shows "filter P (mkeys m) = filter Q (mkeys n)"
  using assms by (intro sorted_distinct_set_unique)
    (auto intro: sorted_wrt_filter distinct_filter simp: map_ok_sorted map_ok_distinct)

lemma changed_hosts_swap:
  "map_ok p \<Longrightarrow> map_ok n \<Longrightarrow> changed_hosts P n p = changed_hosts (\<lambda>b a. P a b) p n"
  unfolding changed_hosts_def by (rule sorted_filter_keys_eq) (auto simp: mkeys_iff)

lemma changed_groups_swap: "map_ok p \<Longrightarrow> map_ok n \<Longrightarrow> changed_groups n p = changed_groups p n"
  unfolding changed_groups_def
  by (rule sorted_filter_keys_eq) (auto simp: mkeys_iff same_addresses_sym)

definition swap_changes :: "changes \<Rightarrow> changes" where
  "swap_changes c = c\<lparr>ch_hosts_added := ch_hosts_removed c, ch_hosts_removed := ch_hosts_added c,
     ch_went_online := ch_went_offline c, ch_went_offline := ch_went_online c,
     ch_groups_added := ch_groups_removed c, ch_groups_removed := ch_groups_added c,
     ch_roots_added := ch_roots_removed c, ch_roots_removed := ch_roots_added c\<rparr>"

text \<open>
  C25: Comparing in the other direction reports the mirror image: added and removed, online and
  offline change places, rotated keys and changed pools stay, and every list keeps its order.
\<close>

lemma compare_swap: "compare_inv n p = swap_changes (compare_inv p n)"
proof (cases p; cases n)
  fix p' n' assume pn: "p = Some p'" "n = Some n'"
  have "changed_hosts key_rotated (hosts_by_slug n') (hosts_by_slug p')
      = changed_hosts key_rotated (hosts_by_slug p') (hosts_by_slug n')"
    by (subst changed_hosts_swap) (simp_all add: changed_hosts_def key_rotated_def eq_commute)
  moreover have "changed_hosts came_online (hosts_by_slug n') (hosts_by_slug p')
      = changed_hosts (\<lambda>b a. came_online a b) (hosts_by_slug p') (hosts_by_slug n')"
    "changed_hosts (\<lambda>b a. came_online a b) (hosts_by_slug n') (hosts_by_slug p')
      = changed_hosts came_online (hosts_by_slug p') (hosts_by_slug n')"
    by (simp_all add: changed_hosts_swap [of "hosts_by_slug p'"])
  moreover have "changed_groups (groups_by_name n') (groups_by_name p')
      = changed_groups (groups_by_name p') (groups_by_name n')"
    by (simp add: changed_groups_swap [of "groups_by_name p'"])
  ultimately show ?thesis
    unfolding pn compare_spec swap_changes_def by (simp only: changes.simps)
qed (simp_all add: swap_changes_def no_changes_def)

section \<open>What Compare reports nothing about\<close>

text \<open>What \<open>Compare\<close> looks at: per slug the last host, per name the last group, the set of roots.\<close>

definition same_view :: "inventory \<Rightarrow> inventory \<Rightarrow> bool" where
  "same_view p n \<longleftrightarrow>
     rel_map_of (\<lambda>a b. host_online a = host_online b \<and> host_key a = host_key b) (hosts_by_slug p) (hosts_by_slug n) \<and>
     rel_map_of (\<lambda>a b. mset (group_ipv4 a) = mset (group_ipv4 b)) (groups_by_name p) (groups_by_name n) \<and>
     set (inv_root_domains p) = set (inv_root_domains n)"

lemma sorted_missing_Nil: "sorted_missing a b = [] \<longleftrightarrow> set (mkeys a) \<subseteq> set (mkeys b)"
  by (auto simp: sorted_missing_def filter_eq_Nil_iff mhas_iff)

lemma sorted_difference_Nil: "sorted_difference a b = [] \<longleftrightarrow> set a \<subseteq> set b"
  by (auto simp: sorted_difference_def filter_eq_Nil_iff)

lemma changed_Nil:
  "changed_hosts P p n = [] \<longleftrightarrow>
     (\<forall>s b a. map_of p s = Some b \<longrightarrow> map_of n s = Some a \<longrightarrow> \<not> P b a)"
  "changed_groups gp gn = [] \<longleftrightarrow>
     (\<forall>s b a. map_of gp s = Some b \<longrightarrow> map_of gn s = Some a \<longrightarrow> mset (group_ipv4 b) = mset (group_ipv4 a))"
  unfolding changed_hosts_def changed_groups_def filter_eq_Nil_iff mkeys_iff same_addresses_iff Ball_def
  by (metis option.distinct(1))+

lemma compare_same_view: "changes_empty (compare_inv (Some p) (Some n)) \<longleftrightarrow> same_view p n"
proof -
  let ?hp = "hosts_by_slug p" and ?hn = "hosts_by_slug n"
  let ?gp = "groups_by_name p" and ?gn = "groups_by_name n"
  have hosts: "sorted_missing ?hn ?hp = [] \<and> sorted_missing ?hp ?hn = [] \<and>
      changed_hosts came_online ?hp ?hn = [] \<and> changed_hosts (\<lambda>b a. came_online a b) ?hp ?hn = [] \<and>
      changed_hosts key_rotated ?hp ?hn = [] \<longleftrightarrow>
      rel_map_of (\<lambda>a b. host_online a = host_online b \<and> host_key a = host_key b) ?hp ?hn"
    unfolding sorted_missing_Nil rel_map_of_keys changed_Nil came_online_def key_rotated_def by blast
  have groups: "sorted_missing ?gn ?gp = [] \<and> sorted_missing ?gp ?gn = [] \<and> changed_groups ?gp ?gn = [] \<longleftrightarrow>
      rel_map_of (\<lambda>a b. mset (group_ipv4 a) = mset (group_ipv4 b)) ?gp ?gn"
    unfolding sorted_missing_Nil rel_map_of_keys changed_Nil by blast
  show ?thesis
    using hosts groups
    by (simp add: changes_empty_def compare_spec same_view_def sorted_difference_Nil) blast
qed

text \<open>
  C24: \<open>Compare\<close> reports nothing exactly when the two inventories have the same slugs with the
  same state and key, the same groups with the same addresses up to order, and the same roots.
\<close>

lemma compare_empty_iff: "changes_empty (compare_inv (Some p) (Some n)) \<longleftrightarrow> same_view p n"
  by (rule compare_same_view)

definition set_fronts :: "(entry_group \<Rightarrow> front_proxy option) \<Rightarrow> inventory \<Rightarrow> inventory" where
  "set_fronts f iv = iv\<lparr>inv_entry_groups := map (\<lambda>g. g\<lparr>group_front := f g\<rparr>) (inv_entry_groups iv)\<rparr>"

lemma rel_map_of_mput_all:
  assumes "rel_map_of R m n" "\<And>x. x \<in> set xs \<Longrightarrow> R (g x) (g' x)"
  shows "rel_map_of R (mput_all f g xs m) (mput_all f g' xs n)"
  using assms
proof (induction xs arbitrary: m n)
  case (Cons x xs)
  have "rel_map_of R (mput (f x) (g x) m) (mput (f x) (g' x) n)"
    using Cons.prems by (simp add: rel_map_of_def)
  with Cons.IH Cons.prems(2) show ?case by (simp add: mput_all_def)
qed (simp add: mput_all_def)

lemma mput_all_map: "mput_all f g (map h xs) m = mput_all (\<lambda>x. f (h x)) (\<lambda>x. g (h x)) xs m"
  by (induction xs arbitrary: m) (simp_all add: mput_all_def)

text \<open>
  A front proxy is not part of what \<open>Compare\<close> looks at: an update that gives every entry
  group another front proxy (endpoint and required headers) is reported as no change.
\<close>

lemma compare_ignores_front: "changes_empty (compare_inv (Some iv) (Some (set_fronts f iv)))"
  by (auto simp: compare_same_view same_view_def set_fronts_def hosts_by_slug_def groups_by_name_def
      mput_all_map intro!: rel_map_of_mput_all)

end
