(* ===== verification/Pinning.thy ===== *)
theory Pinning
  imports Inventory
begin

text \<open>
  \<open>internal/pinning/pinning.go\<close>: the store of certificate pins and the verifier that runs
  after the standard chain check. A certificate is its \<open>RawSubjectPublicKeyInfo\<close>; the hash
  \<open>sha256\<close> is a parameter (32 bytes long). The store's state is its record and the file
  system it writes to. The verifier is written over the two store methods it calls, so that
  what it needs of them is the locale \<open>pin_book\<close>; it is interpreted on the store below.
\<close>

section \<open>The store\<close>

datatype pin_mode = ModeOff | ModeTOFU | ModeStrict

definition parse_mode :: "string \<Rightarrow> pin_mode result" where
  "parse_mode s =
     (if s = ''off'' then Inr ModeOff
      else if s = ''tofu'' then Inr ModeTOFU
      else if s = ''strict'' then Inr ModeStrict
      else Inl (Errorf ''unknown pin mode %q; expected off, tofu or strict'' [AStr s]))"

record pin_store =
  ps_path :: string
  ps_pins :: "(string, string list) gomap"

definition valid_pin :: "string \<Rightarrow> bool" where
  "valid_pin v = (case b64_decode StdEncoding v of Some d \<Rightarrow> length d = 32 | None \<Rightarrow> False)"

definition validate_pin_entry :: "string \<Rightarrow> string list \<Rightarrow> unit result" where
  "validate_pin_entry host values =
     rbind (rcheck (trim_space host \<noteq> []) (Errorf ''pin host must not be empty'' [])) (\<lambda>_.
     rbind (rcheck (values \<noteq> []) (Errorf ''pin list for %s must not be empty'' [AStr host])) (\<lambda>_.
     for_each (\<lambda>v. rcheck (valid_pin v) (Errorf ''invalid SPKI SHA-256 pin for %s'' [AStr host])) values))"

definition validate_pins :: "(string, string list) gomap \<Rightarrow> unit result" where
  "validate_pins pins = for_each (\<lambda>(host, values). validate_pin_entry host values) pins"

definition dec_pins :: "(string, string list) gomap decoder" where
  "dec_pins = dec_map (dec_slice dec_string []) []"

definition pins_json :: "(string, string list) gomap \<Rightarrow> json" where
  "pins_json pins = JObj (map (\<lambda>(host, values). (host, enc_list JStr values)) pins)"

definition open_store :: "string \<Rightarrow> fs \<Rightarrow> pin_store result" where
  "open_store path fs =
     (if trim_space path = [] then Inl (Errorf ''pin store path must not be empty'' [])
      else case read_file path fs of
             Inl e \<Rightarrow> if is_not_exist e then Inr \<lparr>ps_path = path, ps_pins = []\<rparr> else Inl e
           | Inr data \<Rightarrow>
               rbind (rwrap (\<lambda>e. Errorf ''parse pin store %s: %w'' [AStr path, AErr e])
                        (unmarshal dec_pins [] data)) (\<lambda>pins.
               rbind (rwrap (\<lambda>e. Errorf ''validate pin store %s: %w'' [AStr path, AErr e])
                        (validate_pins pins)) (\<lambda>_.
               Inr \<lparr>ps_path = path, ps_pins = pins\<rparr>)))"

type_synonym pin_state = "pin_store \<times> fs"

definition store_get :: "pin_state \<Rightarrow> string \<Rightarrow> string list" where
  "store_get s host = (case map_of (ps_pins (fst s)) host of None \<Rightarrow> [] | Some vs \<Rightarrow> vs)"

definition store_set :: "string \<Rightarrow> string list \<Rightarrow> pin_state \<Rightarrow> unit result \<times> pin_state" where
  "store_set host values s =
     (let (st, fs) = s in
      case validate_pin_entry host values of
        Inl e \<Rightarrow> (Inl e, s)
      | Inr _ \<Rightarrow>
          (let next = mput host (sort values) (ps_pins st);
               data = marshal_indent (pins_json next)
           in case mkdir_all (dir_path (ps_path st)) fs of
                (Inl e, fs1) \<Rightarrow> (Inl e, (st, fs1))
              | (Inr _, fs1) \<Rightarrow>
                  (case write_file (ps_path st) (data @ [CHR 0x0A]) fs1 of
                     (Inl e, fs2) \<Rightarrow> (Inl e, (st, fs2))
                   | (Inr _, fs2) \<Rightarrow> (Inr (), (st\<lparr>ps_pins := next\<rparr>, fs2)))))"

section \<open>The verifier\<close>

definition spki :: "(string \<Rightarrow> string) \<Rightarrow> string \<Rightarrow> string" where
  "spki sha256 cert = b64_encode StdEncoding (sha256 cert)"

definition chain_pins :: "(string \<Rightarrow> string) \<Rightarrow> string list list \<Rightarrow> string list" where
  "chain_pins sha256 chs =
     foldl (\<lambda>out chain. foldl (\<lambda>out cert. let pin = spki sha256 cert in
        if pin \<in> set out then out else out @ [pin]) out chain) [] chs"

text \<open>
  One handshake in two steps, because the verifier holds the store's lock only inside
  \<open>Get\<close> and inside \<open>Set\<close>: what it read, and what it does with it.
\<close>

definition verify_after_get :: "(string \<Rightarrow> string list \<Rightarrow> 's \<Rightarrow> unit result \<times> 's)
    \<Rightarrow> pin_mode \<Rightarrow> string \<Rightarrow> string list \<Rightarrow> string list \<Rightarrow> 's \<Rightarrow> unit result \<times> 's" where
  "verify_after_get set_pins mode host present stored s =
     (if stored = [] then
        (if mode = ModeStrict then
           (Inl (Errorf ''no pin stored for %s and strict pinning is on; connect once in tofu mode to record one''
                   [AStr host]), s)
         else set_pins host present s)
      else if list_ex (\<lambda>p. p \<in> set stored) present then (Inr (), s)
      else (Inl (MismatchError host stored present), s))"

definition verify_present :: "('s \<Rightarrow> string \<Rightarrow> string list)
    \<Rightarrow> (string \<Rightarrow> string list \<Rightarrow> 's \<Rightarrow> unit result \<times> 's)
    \<Rightarrow> pin_mode \<Rightarrow> string \<Rightarrow> string list \<Rightarrow> 's \<Rightarrow> unit result \<times> 's" where
  "verify_present get_pins set_pins mode host present s =
     (if present = [] then (Inl (Errorf ''no verified certificate chain to pin against'' []), s)
      else verify_after_get set_pins mode host present (get_pins s host) s)"

definition verifier :: "(string \<Rightarrow> string) \<Rightarrow> pin_mode \<Rightarrow> string
    \<Rightarrow> (string list list \<Rightarrow> pin_state \<Rightarrow> unit result \<times> pin_state) option" where
  "verifier sha256 mode host =
     (if mode = ModeOff then None
      else Some (\<lambda>chs. verify_present store_get store_set mode host (chain_pins sha256 chs)))"

section \<open>What the verifier needs of a store\<close>

locale pin_book =
  fixes get_pins :: "'s \<Rightarrow> string \<Rightarrow> string list"
    and set_pins :: "string \<Rightarrow> string list \<Rightarrow> 's \<Rightarrow> unit result \<times> 's"
  assumes set_ok: "set_pins h vs s = (Inr u, s') \<Longrightarrow> get_pins s' h' = (if h' = h then sort vs else get_pins s h')"
    and set_err: "set_pins h vs s = (Inl e, s') \<Longrightarrow> get_pins s' h' = get_pins s h'"
begin

text \<open>A store changes only on the first use of a host, in a mode that allows it.\<close>

lemma verify_cases:
  assumes "verify_present get_pins set_pins mode h present s = (r, s')"
  obtains (refused) e where "r = Inl e" "s' = s"
  | (matched) p where "r = Inr ()" "s' = s" "p \<in> set present" "p \<in> set (get_pins s h)"
  | (first) "get_pins s h = []" "mode \<noteq> ModeStrict" "present \<noteq> []" "set_pins h present s = (r, s')"
  using assms that
  by (auto simp: verify_present_def verify_after_get_def list_ex_iff split: if_splits)

lemma get_after:
  assumes "verify_present get_pins set_pins mode h present s = (r, s')"
  shows "get_pins s' h' =
    (if h' = h \<and> r = Inr () \<and> get_pins s h = [] then sort present else get_pins s h')"
  using assms
proof (cases rule: verify_cases)
  case first
  then show ?thesis by (cases r) (auto simp: set_ok set_err)
qed auto

lemma accepted:
  assumes "verify_present get_pins set_pins mode h present s = (Inr (), s')"
  shows "present \<noteq> [] \<and> set present \<inter> set (get_pins s' h) \<noteq> {} \<and>
    (get_pins s h = [] \<longrightarrow> mode \<noteq> ModeStrict)"
  using assms
proof (cases rule: verify_cases)
  case (matched p)
  then show ?thesis by (auto dest: length_pos_if_in_set)
next
  case first
  then have "get_pins s' h = sort present" using get_after [OF assms, of h] by simp
  with first show ?thesis by simp
qed simp

lemma kept:
  assumes "verify_present get_pins set_pins mode h present s = (r, s')" "get_pins s h' \<noteq> []"
  shows "get_pins s' h' = get_pins s h'"
  using get_after [OF assms(1), of h'] assms(2) by auto

end

lemma store_set_cases:
  obtains e fs' where "store_set host values (st, fs) = (Inl e, (st, fs'))"
  | fs1 fs2 where "store_set host values (st, fs)
        = (Inr (), (st\<lparr>ps_pins := mput host (sort values) (ps_pins st)\<rparr>, fs2))"
      "validate_pin_entry host values = Inr ()"
      "mkdir_all (dir_path (ps_path st)) fs = (Inr (), fs1)"
      "write_file (ps_path st)
         (marshal_indent (pins_json (mput host (sort values) (ps_pins st))) @ [CHR 0x0A]) fs1 = (Inr (), fs2)"
proof (cases "validate_pin_entry host values")
  case (Inr u)
  show ?thesis
  proof (cases "mkdir_all (dir_path (ps_path st)) fs")
    case mk: (Pair r fs1)
    show ?thesis
    proof (cases r)
      case r: (Inr u')
      let ?d = "marshal_indent (pins_json (mput host (sort values) (ps_pins st))) @ [CHR 0x0A]"
      show ?thesis
      proof (cases "write_file (ps_path st) ?d fs1")
        case (Pair r2 fs2)
        with Inr mk r that show ?thesis by (cases r2) (auto simp: store_set_def Let_def)
      qed
    qed (use Inr mk that in \<open>auto simp: store_set_def Let_def\<close>)
  qed
qed (use that in \<open>auto simp: store_set_def\<close>)

interpretation store: pin_book store_get store_set
proof unfold_locales
  fix h vs u h' and s s' :: pin_state
  assume "store_set h vs s = (Inr u, s')"
  then show "store_get s' h' = (if h' = h then sort vs else store_get s h')"
    by (cases s; cases rule: store_set_cases [of h vs "fst s" "snd s"]) (auto simp: store_get_def)
next
  fix h vs e h' and s s' :: pin_state
  assume "store_set h vs s = (Inl e, s')"
  then show "store_get s' h' = store_get s h'"
    by (cases s; cases rule: store_set_cases [of h vs "fst s" "snd s"]) (auto simp: store_get_def)
qed

section \<open>The store's invariant\<close>

definition store_ok :: "pin_store \<Rightarrow> bool" where
  "store_ok st \<longleftrightarrow> trim_space (ps_path st) \<noteq> [] \<and> map_ok (ps_pins st) \<and> validate_pins (ps_pins st) = Inr ()"

lemma validate_pin_entry_ok:
  "validate_pin_entry h vs = Inr () \<longleftrightarrow> trim_space h \<noteq> [] \<and> vs \<noteq> [] \<and> (\<forall>v \<in> set vs. valid_pin v)"
  by (auto simp: validate_pin_entry_def res_simps)

lemma validate_pins_ok:
  "validate_pins m = Inr () \<longleftrightarrow> (\<forall>(h, vs) \<in> set m. validate_pin_entry h vs = Inr ())"
  by (auto simp: validate_pins_def res_simps)

lemma dec_entries_ok: "map_ok m \<Longrightarrow> dec_entries d z m ms = (m', ok) \<Longrightarrow> map_ok m'"
  using dec_entries_map_ok [of m d z ms] by simp

lemma open_store_ok: "open_store path fs = Inr st \<Longrightarrow> store_ok st"
  unfolding open_store_def store_ok_def
  by (auto simp: res_simps unmarshal_def dec_pins_def dec_map_def validate_pins_def
      split: if_splits sum.splits option.splits prod.splits json.splits
      dest: dec_entries_ok [rotated])

lemma store_set_ok: "store_ok (fst s) \<Longrightarrow> store_ok (fst (snd (store_set h vs s)))"
proof -
  assume ok: "store_ok (fst s)"
  obtain st fs where s: "s = (st, fs)" by (cases s)
  show ?thesis
  proof (cases rule: store_set_cases [of h vs st fs])
    case (2 fs1 fs2)
    then have "validate_pins (mput h (sort vs) (ps_pins st)) = Inr ()"
      using ok s by (auto simp: store_ok_def validate_pins_ok validate_pin_entry_ok dest!: set_mput)
    with 2 ok s show ?thesis by (simp add: store_ok_def)
  qed (use ok s in simp)
qed

section \<open>The pins of a chain\<close>

lemma chain_pins_concat:
  "chain_pins sha256 chs = foldl (\<lambda>out cert. let pin = spki sha256 cert in
     if pin \<in> set out then out else out @ [pin]) [] (concat chs)"
proof -
  let ?f = "\<lambda>out cert. let pin = spki sha256 cert in if pin \<in> set out then out else out @ [pin]"
  have "foldl (\<lambda>out chain. foldl ?f out chain) acc chs = foldl ?f acc (concat chs)" for acc
    by (induction chs arbitrary: acc) simp_all
  then show ?thesis by (simp add: chain_pins_def)
qed

lemma chain_pins_props:
  "set (chain_pins sha256 chs) = spki sha256 ` set (concat chs) \<and> distinct (chain_pins sha256 chs)"
proof -
  let ?f = "\<lambda>out cert. let pin = spki sha256 cert in if pin \<in> set out then out else out @ [pin]"
  have "set (foldl ?f acc cs) = set acc \<union> spki sha256 ` set cs \<and> distinct (foldl ?f acc cs)"
    if "distinct acc" for acc cs
    using that by (induction cs arbitrary: acc) (auto simp: Let_def)
  from this [of "[]" "concat chs"] show ?thesis by (simp add: chain_pins_concat)
qed

lemma chain_pins_Nil: "chain_pins sha256 chs = [] \<longleftrightarrow> concat chs = []"
  using chain_pins_props [of sha256 chs] by (metis image_is_empty set_empty)

lemma chain_pins_valid: "\<forall>c. length (sha256 c) = 32 \<Longrightarrow> p \<in> set (chain_pins sha256 chs) \<Longrightarrow> valid_pin p"
  using chain_pins_props [of sha256 chs] by (auto simp: valid_pin_def spki_def b64_roundtrip)

section \<open>Handshakes\<close>

lemma verifier_Inr:
  assumes "verifier sha256 mode host = Some v" "v chs s = (r, s')"
  shows "(r = Inr () \<longleftrightarrow> concat chs \<noteq> [] \<and>
      (if store_get s host = [] then mode = ModeTOFU \<and> fst (store_set host (chain_pins sha256 chs) s) = Inr ()
       else \<exists>cert \<in> set (concat chs). spki sha256 cert \<in> set (store_get s host)))
    \<and> (\<forall>h. store_get s' h = (if h = host \<and> r = Inr () \<and> store_get s h = []
             then sort (chain_pins sha256 chs) else store_get s h))"
proof -
  have v: "verify_present store_get store_set mode host (chain_pins sha256 chs) s = (r, s')"
    and mode: "mode \<noteq> ModeOff"
    using assms by (auto simp: verifier_def split: if_splits)
  have "r = Inr () \<longleftrightarrow> concat chs \<noteq> [] \<and>
      (if store_get s host = [] then mode = ModeTOFU \<and> fst (store_set host (chain_pins sha256 chs) s) = Inr ()
       else \<exists>cert \<in> set (concat chs). spki sha256 cert \<in> set (store_get s host))"
    using v mode chain_pins_props [of sha256 chs] chain_pins_Nil [of sha256 chs]
    by (cases mode) (auto simp: verify_present_def verify_after_get_def list_ex_iff split: if_splits)
  moreover have "store_get s' h = (if h = host \<and> r = Inr () \<and> store_get s h = []
      then sort (chain_pins sha256 chs) else store_get s h)" for h
    using store.get_after [OF v, of h] by auto
  ultimately show ?thesis by (intro conjI allI)
qed

text \<open>
  C19: A handshake is accepted exactly when it presents some certificate and, on a host with
  pins, one of its keys is pinned; on a host without, only in mode tofu and only once the chain
  is stored. The pins change only on such a first use, where they become the sorted chain.
\<close>

lemma verifier_accepts:
  assumes "verifier sha256 mode host = Some v" "v chs s = (r, s')"
  shows "(r = Inr () \<longleftrightarrow> concat chs \<noteq> [] \<and>
      (if store_get s host = [] then mode = ModeTOFU \<and> fst (store_set host (chain_pins sha256 chs) s) = Inr ()
       else \<exists>cert \<in> set (concat chs). spki sha256 cert \<in> set (store_get s host)))
    \<and> (\<forall>h. store_get s' h = (if h = host \<and> r = Inr () \<and> store_get s h = []
             then sort (chain_pins sha256 chs) else store_get s h))"
  using assms by (rule verifier_Inr)

text \<open>A run of handshakes: the mode, the host and the verified chains of each.\<close>

fun handshakes :: "(string \<Rightarrow> string) \<Rightarrow> (pin_mode \<times> string \<times> string list list) list \<Rightarrow> pin_state
    \<Rightarrow> unit result list \<times> pin_state" where
  "handshakes sha256 [] s = ([], s)"
| "handshakes sha256 ((mode, host, chs) # es) s =
     (let (r, s1) = (case verifier sha256 mode host of None \<Rightarrow> (Inr (), s) | Some v \<Rightarrow> v chs s);
          (rs, s2) = handshakes sha256 es s1
      in (r # rs, s2))"

text \<open>
  C3: Once a host has pins they never change, through any run of handshakes with any hosts in
  any modes, and every accepted handshake with that host (pinning on) presents a pinned key.
\<close>

lemma handshakes_stick:
  assumes "store_get s host \<noteq> []" "handshakes sha256 es s = (rs, s')"
  shows "store_get s' host = store_get s host \<and> length rs = length es \<and>
    (\<forall>i < length es. \<forall>mode chs. es ! i = (mode, host, chs) \<and> mode \<noteq> ModeOff \<and> rs ! i = Inr () \<longrightarrow>
       (\<exists>cert \<in> set (concat chs). spki sha256 cert \<in> set (store_get s host)))"
  using assms
proof (induction es arbitrary: s rs)
  case Nil
  then show ?case by simp
next
  case (Cons e es)
  obtain mode h chs where e: "e = (mode, h, chs)" by (cases e)
  obtain r s1 where s1: "(case verifier sha256 mode h of None \<Rightarrow> (Inr (), s) | Some v \<Rightarrow> v chs s) = (r, s1)"
    by (metis surj_pair)
  obtain rs1 where rs: "handshakes sha256 es s1 = (rs1, s')" "rs = r # rs1"
    using Cons.prems(2) e s1 by (auto split: prod.splits)
  have step: "store_get s1 host = store_get s host \<and> (h = host \<and> mode \<noteq> ModeOff \<and> r = Inr () \<longrightarrow>
      (\<exists>cert \<in> set (concat chs). spki sha256 cert \<in> set (store_get s host)))"
  proof (cases "verifier sha256 mode h")
    case None
    then show ?thesis using s1 by (auto simp: verifier_def split: if_splits)
  next
    case (Some v)
    then show ?thesis
      using verifier_Inr [OF Some, of chs s r s1] s1 Cons.prems(1) by auto
  qed
  with Cons.IH [of s1 rs1] Cons.prems(1) rs show ?case
    by (simp add: nth_Cons e split: nat.split) blast
qed

section \<open>Durability\<close>

lemma b64_val_ascii: "b64_val u c = Some n \<Longrightarrow> code c < 128"
  by (auto simp: b64_val_def Let_def split: if_splits)

lemma decode_ascii:
  "decode2 u x y = Some d \<Longrightarrow> code x < 128 \<and> code y < 128"
  "decode3 u x y z = Some d \<Longrightarrow> code x < 128 \<and> code y < 128 \<and> code z < 128"
  "decode4 u x y z w = Some d \<Longrightarrow> code x < 128 \<and> code y < 128 \<and> code z < 128 \<and> code w < 128"
  by (auto simp: decode2_def decode3_def decode4_def bind_eq_Some_conv dest: b64_val_ascii)

lemma b64_quanta_ascii: "b64_quanta e k = Some d \<Longrightarrow> c \<in> set k \<Longrightarrow> code c < 128"
proof (induction e k arbitrary: d rule: b64_quanta.induct)
  case (5 e x y z w k)
  show ?case
  proof (cases "padded e \<and> w = pad_char")
    case True
    with "5.prems" show ?thesis
      by (auto split: if_splits dest: decode_ascii)
  next
    case False
    with "5.prems"(1) obtain q r where "decode4 (url_alphabet e) x y z w = Some q" "b64_quanta e k = Some r"
      by (auto simp: bind_eq_Some_conv split: if_splits)
    with "5.IH" False "5.prems"(2) show ?thesis by (auto dest: decode_ascii)
  qed
qed (auto split: if_splits dest: decode_ascii)

lemma valid_pin_utf8: "valid_pin v \<Longrightarrow> valid_utf8 v"
proof (rule valid_utf8_all_ascii)
  fix c assume "valid_pin v" "c \<in> set v"
  then obtain d where "b64_quanta StdEncoding (filter (\<lambda>c. \<not> line_break c) v) = Some d"
    by (auto simp: valid_pin_def b64_decode_def split: option.splits)
  with \<open>c \<in> set v\<close> show "code c < 128"
    by (cases "line_break c") (auto simp: line_break_def dest: b64_quanta_ascii)
qed

lemma unmarshal_pins:
  assumes "map_ok m" "validate_pins m = Inr ()" "\<forall>h \<in> set (mkeys m). valid_utf8 h"
  shows "unmarshal dec_pins [] (marshal_indent (pins_json m) @ [CHR 0x0A]) = Inr m"
proof (rule unmarshal_marshal)
  have "valid_utf8 v" if "(h, vs) \<in> set m" "v \<in> set vs" for h vs v
    using assms(2) that by (fastforce simp: validate_pins_ok validate_pin_entry_ok intro: valid_pin_utf8)
  then show "json_good (pins_json m)"
    using assms(3) by (force simp: pins_json_def list_all_iff mkeys_def)
  have "jdepth (enc_list JStr vs) \<le> Suc 0" for vs
    by (rule jdepth_enc_list) simp
  then have "jdepth (pins_json m) \<le> Suc (Suc 0)"
    by (auto simp: pins_json_def foldr_max_le)
  then show "jdepth (pins_json m) \<le> 10000" by simp
  show "dec_pins [] (pins_json m) = (m, True)"
    unfolding dec_pins_def pins_json_def using assms(1) by (intro dec_map_map) (simp_all add: dec_enc_list)
qed

text \<open>
  C20: A first use is durable: when it is accepted, opening the store's file again gives the
  store that is in memory, and the same chain is accepted from it in every mode.
\<close>

lemma first_use_durable:
  assumes "store_ok (fst s)" "\<forall>h \<in> set (mkeys (ps_pins (fst s))). valid_utf8 h" "valid_utf8 host"
    and "\<not> fs_refuses (snd s) OpRead (ps_path (fst s))"
    and "verifier sha256 mode host = Some v" "store_get s host = []" "v chs s = (Inr (), s')"
  shows "open_store (ps_path (fst s)) (snd s') = Inr (fst s')
    \<and> (\<forall>mode' v' fs. verifier sha256 mode' host = Some v' \<longrightarrow> fst (v' chs (fst s', fs)) = Inr ())"
proof -
  obtain st fs where s: "s = (st, fs)" by (cases s)
  have set: "store_set host (chain_pins sha256 chs) s = (Inr (), s')" and ne: "concat chs \<noteq> []"
    using assms(5-7) chain_pins_Nil [of sha256 chs]
    by (auto simp: verifier_def verify_present_def verify_after_get_def split: if_splits)
  have got: "store_get s' host = sort (chain_pins sha256 chs)"
    using verifier_Inr [OF assms(5,7)] assms(6) by auto
  have "open_store (ps_path st) (snd s') = Inr (fst s')"
  proof (cases rule: store_set_cases [of host "chain_pins sha256 chs" st fs])
    case (2 fs1 fs2)
    let ?m = "mput host (sort (chain_pins sha256 chs)) (ps_pins st)"
    have s': "s' = (st\<lparr>ps_pins := ?m\<rparr>, fs2)" using 2 set s by simp
    have "store_ok (st\<lparr>ps_pins := ?m\<rparr>)"
      using store_set_ok [OF assms(1), of host "chain_pins sha256 chs"] set s' by simp
    then have ok: "map_ok ?m" "validate_pins ?m = Inr ()" "trim_space (ps_path st) \<noteq> []"
      by (simp_all add: store_ok_def)
    have "fs_refuses fs1 = fs_refuses fs"
      using fs_refuses_kept(2) [of "dir_path (ps_path st)" fs] 2(3) by simp
    then have "read_file (ps_path st) fs2 = Inr (marshal_indent (pins_json ?m) @ [CHR 0x0A])"
      using read_after_write [OF 2(4)] assms(4) s by simp
    moreover have "unmarshal dec_pins [] (marshal_indent (pins_json ?m) @ [CHR 0x0A]) = Inr ?m"
      using ok assms(2,3) s by (intro unmarshal_pins) auto
    ultimately show ?thesis using ok s' by (simp add: open_store_def)
  qed (use set s in simp)
  moreover have "fst (v' chs (fst s', fs')) = Inr ()" if v': "verifier sha256 mode' host = Some v'" for mode' v' fs'
  proof -
    have "store_get (fst s', fs') host = sort (chain_pins sha256 chs)"
      using got by (simp add: store_get_def)
    then show ?thesis
      using v' ne chain_pins_Nil [of sha256 chs]
      by (auto simp: verifier_def verify_present_def verify_after_get_def list_ex_iff split: if_splits)
  qed
  ultimately show ?thesis using s by simp
qed


section \<open>Witnesses\<close>

definition toy_hash :: "string \<Rightarrow> string" where
  "toy_hash c = take 32 (c @ replicate 32 CHR ''x'')"

definition empty_pins :: pin_state where
  "empty_pins = (\<lparr>ps_path = ''/d/pins.json'', ps_pins = []\<rparr>, plain_fs [])"

lemma length_toy_hash [simp]: "length (toy_hash c) = 32"
  by (simp add: toy_hash_def)

lemma store_set_plain:
  assumes "trim_space h \<noteq> []" "vs \<noteq> []" "\<forall>v \<in> set vs. valid_pin v"
    "fs_refuses fs = (\<lambda>_ _. False)" "fs_room fs = (\<lambda>_. None)"
    "fs_nodes fs (ps_path st) \<noteq> Some Dir" "\<forall>d. fs_nodes fs (dir_path (ps_path st)) \<noteq> Some (File d)"
    "dir_path (ps_path st) \<noteq> ps_path st"
  shows "\<exists>fs'. store_set h vs (st, fs) = (Inr (), (st\<lparr>ps_pins := mput h (sort vs) (ps_pins st)\<rparr>, fs'))
    \<and> fs_refuses fs' = (\<lambda>_ _. False) \<and> fs_room fs' = (\<lambda>_. None)
    \<and> fs_nodes fs' (ps_path st) \<noteq> Some Dir \<and> (\<forall>d. fs_nodes fs' (dir_path (ps_path st)) \<noteq> Some (File d))"
  using assms
  by (auto simp: store_set_def Let_def validate_pin_entry_ok [THEN iffD2] mkdir_all_def write_file_def
      split: option.split node.split)

lemma dir_pins: "dir_path ''/d/pins.json'' = ''/d''"
  by code_simp

lemma first_use_plain:
  assumes "a \<noteq> []" "\<forall>v \<in> set a. valid_pin v" "b \<noteq> []" "\<forall>v \<in> set b. valid_pin v"
  shows "\<exists>s1 s2. store_set ''c.example'' a empty_pins = (Inr (), s1) \<and> store_set ''c.example'' b s1 = (Inr (), s2)"
proof -
  have h: "trim_space ''c.example'' \<noteq> []" by code_simp
  let ?st = "\<lparr>ps_path = ''/d/pins.json'', ps_pins = []\<rparr>"
  obtain fs1 where 1: "store_set ''c.example'' a (?st, plain_fs []) =
      (Inr (), (?st\<lparr>ps_pins := mput ''c.example'' (sort a) []\<rparr>, fs1))"
    "fs_refuses fs1 = (\<lambda>_ _. False)" "fs_room fs1 = (\<lambda>_. None)"
    "fs_nodes fs1 ''/d/pins.json'' \<noteq> Some Dir" "\<forall>d. fs_nodes fs1 (dir_path ''/d/pins.json'') \<noteq> Some (File d)"
    using store_set_plain [OF h assms(1,2), of "plain_fs []" ?st] by (auto simp: plain_fs_def dir_pins)
  then show ?thesis
    using store_set_plain [OF h assms(3,4) 1(2,3), of "?st\<lparr>ps_pins := mput ''c.example'' (sort a) []\<rparr>"]
    by (auto simp: empty_pins_def dir_pins)
qed

lemma toy_first_use:
  "\<exists>s1. the (verifier toy_hash ModeTOFU ''c.example'') [[''k1'', ''ca'']] empty_pins = (Inr (), s1)
    \<and> store_get s1 ''c.example'' \<noteq> []"
proof -
  have ne: "chain_pins toy_hash [[''k1'', ''ca'']] \<noteq> []" by (simp add: chain_pins_Nil)
  obtain s1 where s1: "store_set ''c.example'' (chain_pins toy_hash [[''k1'', ''ca'']]) empty_pins = (Inr (), s1)"
    using first_use_plain [OF ne _ ne] chain_pins_valid [of toy_hash] by auto
  have "store_get empty_pins ''c.example'' = []" by (simp add: store_get_def empty_pins_def)
  with s1 ne show ?thesis
    by (auto simp: verifier_def verify_present_def verify_after_get_def store.set_ok)
qed

lemma verifier_accepts_witness:
  "fst (the (verifier toy_hash ModeStrict ''c.example'') [[''k1'']] empty_pins) \<noteq> Inr ()"
proof -
  have "verifier toy_hash ModeStrict ''c.example'' = Some (the (verifier toy_hash ModeStrict ''c.example''))"
    by (simp add: verifier_def)
  note * = verifier_accepts [OF this surjective_pairing, of "[[''k1'']]" empty_pins]
  have "store_get empty_pins ''c.example'' = []" by (simp add: store_get_def empty_pins_def)
  with * show ?thesis by simp
qed

lemma handshakes_stick_witness:
  "\<exists>s rs s'. handshakes toy_hash [(ModeTOFU, ''c.example'', [[''k2'']]), (ModeStrict, ''c.example'', [[''ca'']])] s = (rs, s')
     \<and> store_get s ''c.example'' \<noteq> [] \<and> store_get s' ''c.example'' = store_get s ''c.example''"
proof -
  obtain s where s: "store_get s ''c.example'' \<noteq> []" using toy_first_use by auto
  obtain rs s' where "handshakes toy_hash [(ModeTOFU, ''c.example'', [[''k2'']]),
      (ModeStrict, ''c.example'', [[''ca'']])] s = (rs, s')" by (metis surj_pair)
  with handshakes_stick [OF s this] s show ?thesis by blast
qed

lemma first_use_durable_witness:
  "\<exists>s'. the (verifier toy_hash ModeTOFU ''c.example'') [[''k1'', ''ca'']] empty_pins = (Inr (), s')
    \<and> open_store ''/d/pins.json'' (snd s') = Inr (fst s')"
proof -
  obtain s' where s': "the (verifier toy_hash ModeTOFU ''c.example'') [[''k1'', ''ca'']] empty_pins = (Inr (), s')"
    using toy_first_use by auto
  have "trim_space ''/d/pins.json'' \<noteq> []" "valid_utf8 ''c.example''" by code_simp+
  moreover have v: "verifier toy_hash ModeTOFU ''c.example'' = Some (the (verifier toy_hash ModeTOFU ''c.example''))"
    by (simp add: verifier_def)
  moreover have "store_get empty_pins ''c.example'' = []" "store_ok (fst empty_pins)"
    "ps_pins (fst empty_pins) = []" "ps_path (fst empty_pins) = ''/d/pins.json''"
    "fs_refuses (snd empty_pins) = (\<lambda>_ _. False)"
    using calculation(1) by (simp_all add: empty_pins_def store_ok_def validate_pins_def plain_fs_def store_get_def)
  ultimately have "open_store ''/d/pins.json'' (snd s') = Inr (fst s')"
    using first_use_durable [OF _ _ _ _ v _ s'] by simp
  with s' show ?thesis by blast
qed


end
