(* ===== verification/Version.thy ===== *)
theory Version
  imports GoDecode "HOL-Library.More_List"
begin

text \<open>
  \<open>internal/control/version.go\<close>: the version floor the control plane advertises and the
  comparison of dotted versions. The reference for the comparison is a linear order on
  normalized versions (lists of components without trailing zeros).
\<close>

section \<open>Operations\<close>

record release = rel_minimum_version :: string

record release_doc = doc_release :: release

definition zero_release_doc :: release_doc where
  "zero_release_doc = \<lparr>doc_release = \<lparr>rel_minimum_version = []\<rparr>\<rparr>"

definition release_field :: "release field_decoder" where
  "release_field cur key j =
     (if key_is ''minimum_version'' key then
        field_into dec_string rel_minimum_version (\<lambda>v. rel_minimum_version_update (\<lambda>_. v)) cur j
      else (cur, True))"

definition release_doc_field :: "release_doc field_decoder" where
  "release_doc_field cur key j =
     (if key_is ''release'' key then
        field_into (dec_struct release_field) doc_release (\<lambda>v. doc_release_update (\<lambda>_. v)) cur j
      else (cur, True))"

definition minimum_version :: "string \<Rightarrow> string" where
  "minimum_version payload =
     (case unmarshal (dec_struct release_doc_field) zero_release_doc payload of
        Inl _ \<Rightarrow> []
      | Inr doc \<Rightarrow> rel_minimum_version (doc_release doc))"

definition component :: "string list \<Rightarrow> nat \<Rightarrow> int" where
  "component parts i =
     (if i \<ge> length parts then 0
      else case atoi (trim_space (parts ! i)) of None \<Rightarrow> 0 | Some v \<Rightarrow> v)"

function version_loop :: "string list \<Rightarrow> string list \<Rightarrow> nat \<Rightarrow> bool" where
  "version_loop as bs i =
     (if i < length as \<or> i < length bs then
        (let av = component as i; bv = component bs i
         in if av \<noteq> bv then av < bv else version_loop as bs (Suc i))
      else False)"
  by pat_completeness auto
termination
  by (relation "measure (\<lambda>(as, bs, i). max (length as) (length bs) - i)") auto

declare version_loop.simps [simp del]

definition version_less :: "string \<Rightarrow> string \<Rightarrow> bool" where
  "version_less a b = version_loop (split_on CHR ''.'' a) (split_on CHR ''.'' b) 0"

section \<open>The order of versions\<close>

text \<open>The first component that differs decides; beyond its end a version has zeros.\<close>

definition first_less :: "(nat \<Rightarrow> int) \<Rightarrow> (nat \<Rightarrow> int) \<Rightarrow> bool" where
  "first_less f g \<longleftrightarrow> (\<exists>i. f i < g i \<and> (\<forall>j < i. f j = g j))"

lemma first_less_step:
  assumes "\<forall>j < i. f j = g j" "f i \<noteq> g i"
  shows "first_less f g \<longleftrightarrow> f i < g i"
  using assms unfolding first_less_def by (metis linorder_neqE_nat order.strict_iff_order)

lemma first_less_trichotomy: "first_less f g \<or> f = g \<or> first_less g f"
proof (cases "f = g")
  case False
  then obtain i where "f i \<noteq> g i" "\<forall>j < i. f j = g j"
    using exists_least_iff [of "\<lambda>i. f i \<noteq> g i"] by (auto simp: fun_eq_iff)
  then show ?thesis unfolding first_less_def by (metis linorder_neqE)
qed simp

lemma first_less_trans: "first_less f g \<Longrightarrow> first_less g h \<Longrightarrow> first_less f h"
proof -
  assume "first_less f g" "first_less g h"
  then obtain i k where i: "f i < g i" "\<forall>j < i. f j = g j" and k: "g k < h k" "\<forall>j < k. g j = h j"
    by (auto simp: first_less_def)
  have "f (min i k) < h (min i k)"
  proof (cases i k rule: linorder_cases)
    case less
    then show ?thesis using i(1) k(2) by (simp add: min_def)
  next
    case equal
    then show ?thesis using i(1) k(1) by simp
  next
    case greater
    then show ?thesis using i(2) k(1) by (simp add: min_def)
  qed
  moreover have "\<forall>j < min i k. f j = h j" using i(2) k(2) by simp
  ultimately show ?thesis unfolding first_less_def by blast
qed

lemma first_less_irrefl: "\<not> first_less f f"
  by (simp add: first_less_def)

lemma version_loop_first_less:
  "\<forall>j < i. component as j = component bs j \<Longrightarrow>
   version_loop as bs i \<longleftrightarrow> first_less (component as) (component bs)"
proof (induction as bs i rule: version_loop.induct)
  case (1 as bs i)
  show ?case
  proof (cases "i < length as \<or> i < length bs")
    case True
    then show ?thesis
      using 1 by (subst version_loop.simps) (auto simp: Let_def first_less_step less_Suc_eq)
  next
    case False
    have "component as j = component bs j" for j
    proof (cases "j < i")
      case False
      with \<open>\<not> (i < length as \<or> i < length bs)\<close> show ?thesis by (simp add: component_def)
    qed (use 1(2) in simp)
    then have "component as = component bs" by (rule ext)
    with False show ?thesis
      by (subst version_loop.simps) (simp add: first_less_irrefl)
  qed
qed

text \<open>Normalized versions, linearly ordered.\<close>

typedef verkey = "{xs :: int list. no_trailing ((=) 0) xs}"
  by (rule exI [of _ "[]"]) simp

instantiation verkey :: linorder
begin

definition less_verkey :: "verkey \<Rightarrow> verkey \<Rightarrow> bool" where
  "less_verkey k l = first_less (nth_default 0 (Rep_verkey k)) (nth_default 0 (Rep_verkey l))"

definition less_eq_verkey :: "verkey \<Rightarrow> verkey \<Rightarrow> bool" where
  "less_eq_verkey k l \<longleftrightarrow> k = l \<or> k < (l :: verkey)"

instance
proof
  fix k l m :: verkey
  show "k < l \<longleftrightarrow> k \<le> l \<and> \<not> l \<le> k"
    unfolding less_eq_verkey_def less_verkey_def using first_less_trans first_less_irrefl by blast
  show "k \<le> k" by (simp add: less_eq_verkey_def)
  show "k \<le> l \<Longrightarrow> l \<le> m \<Longrightarrow> k \<le> m"
    unfolding less_eq_verkey_def less_verkey_def using first_less_trans by blast
  show "k \<le> l \<Longrightarrow> l \<le> k \<Longrightarrow> k = l"
    unfolding less_eq_verkey_def less_verkey_def using first_less_trans first_less_irrefl by blast
  show "k \<le> l \<or> l \<le> k"
  proof (cases "nth_default 0 (Rep_verkey k) = nth_default 0 (Rep_verkey l)")
    case True
    then have "Rep_verkey k = Rep_verkey l"
      using Rep_verkey [of k] Rep_verkey [of l] by (simp add: nth_default_eq_iff)
    then show ?thesis by (simp add: Rep_verkey_inject less_eq_verkey_def)
  next
    case False
    then show ?thesis
      unfolding less_eq_verkey_def less_verkey_def using first_less_trichotomy by blast
  qed
qed

end

definition version_key :: "string \<Rightarrow> verkey" where
  "version_key v = (let parts = split_on CHR ''.'' v in
     Abs_verkey (strip_while ((=) 0) (map (component parts) [0..<length parts])))"

lemma version_key_component: "nth_default 0 (Rep_verkey (version_key v)) = component (split_on CHR ''.'' v)"
proof -
  let ?parts = "split_on CHR ''.'' v"
  let ?xs = "map (component ?parts) [0..<length ?parts]"
  have "Rep_verkey (version_key v) = strip_while ((=) 0) ?xs"
    by (simp add: version_key_def Let_def Abs_verkey_inverse no_trailing_strip_while)
  then have "nth_default 0 (Rep_verkey (version_key v)) = nth_default 0 ?xs" by simp
  also have "\<dots> = component ?parts"
    by (rule ext) (simp add: nth_default_def component_def)
  finally show ?thesis .
qed

lemma version_less_by_key: "version_less a b \<longleftrightarrow> version_key a < version_key b"
  by (simp add: version_less_def version_loop_first_less less_verkey_def version_key_component)

text \<open>
  C29: \<open>versionLess\<close> is the linear order on normalized versions: whitespace, leading zeros,
  missing components and trailing zeros make no difference.
\<close>

lemma version_less_key: "version_less a b \<longleftrightarrow> version_key a < version_key b"
  by (rule version_less_by_key)

interpretation version: strict_weak_order version_less
  by unfold_locales (auto simp: version_less_by_key)

text \<open>
  A floor with no numeric component at all is never newer than a version without negative
  components; one malformed component alone does not prevent that, it only counts as zero.
\<close>

lemma malformed_version:
  "((\<forall>p \<in> set (split_on CHR ''.'' b). atoi (trim_space p) = None) \<longrightarrow>
     (\<forall>i. 0 \<le> component (split_on CHR ''.'' a) i) \<longrightarrow> \<not> version_less a b)
   \<and> version_less ''0.2.5'' ''1.x''"
proof
  have "component (split_on CHR ''.'' b) i = 0"
    if "\<forall>p \<in> set (split_on CHR ''.'' b). atoi (trim_space p) = None" for i
    using that by (simp add: component_def)
  then show "(\<forall>p \<in> set (split_on CHR ''.'' b). atoi (trim_space p) = None) \<longrightarrow>
      (\<forall>i. 0 \<le> component (split_on CHR ''.'' a) i) \<longrightarrow> \<not> version_less a b"
    by (auto simp: version_less_def version_loop_first_less first_less_def leD)
  show "version_less ''0.2.5'' ''1.x''" by code_simp
qed

lemma component_nonneg:
  "list_all (\<lambda>p. case atoi (trim_space p) of None \<Rightarrow> True | Some v \<Rightarrow> 0 \<le> v) ps \<Longrightarrow> 0 \<le> component ps i"
proof (cases "i < length ps")
  case True
  moreover assume "list_all (\<lambda>p. case atoi (trim_space p) of None \<Rightarrow> True | Some v \<Rightarrow> 0 \<le> v) ps"
  ultimately have "case atoi (trim_space (ps ! i)) of None \<Rightarrow> True | Some v \<Rightarrow> 0 \<le> v"
    by (simp add: list_all_length)
  then show ?thesis by (simp add: component_def split: option.splits)
qed (simp add: component_def)

lemma malformed_version_witness: "\<not> version_less ''0.2.5'' ''not.a.version''"
proof -
  have "list_all (\<lambda>p. atoi (trim_space p) = None) (split_on CHR ''.'' ''not.a.version'')"
    "list_all (\<lambda>p. case atoi (trim_space p) of None \<Rightarrow> True | Some v \<Rightarrow> 0 \<le> v)
       (split_on CHR ''.'' ''0.2.5'')"
    by code_simp+
  then show ?thesis
    using malformed_version [of "''not.a.version''" "''0.2.5''"] component_nonneg
    by (simp add: list_all_iff)
qed

end
