(* ===== verification/JsonUtf8.thy ===== *)
theory JsonUtf8
  imports GoDecode
begin

text \<open>
  Whatever bytes a JSON document has, the strings \<open>json.Unmarshal\<close> stores are valid UTF-8:
  invalid bytes and lone surrogates become U+FFFD. So every value read from a document can be
  written again and read back.
\<close>

section \<open>String literals\<close>

lemma code_char_of: "n < 256 \<Longrightarrow> code (char_of n) = n"
  by (simp add: of_char_of)

lemma valid_utf8_one: "utf8_len s = length s \<Longrightarrow> s \<noteq> [] \<Longrightarrow> valid_utf8 s"
  by (cases s) (simp_all add: valid_utf8.simps del: utf8_len.simps)

lemma valid_replacement: "valid_utf8 replacement"
  by code_simp

lemma valid_encode_rune:
  assumes "r < 0x110000" "\<not> (0xD800 \<le> r \<and> r \<le> 0xDFFF)"
  shows "valid_utf8 (encode_rune r)"
proof -
  consider "r < 128" | "128 \<le> r" "r < 2048" | "2048 \<le> r" "r < 65536" | "65536 \<le> r" by linarith
  then show ?thesis
  proof cases
    case 1
    then show ?thesis by (simp add: encode_rune_def code_char_of)
  next
    case 2
    have b: "r div 64 < 32" "2 \<le> r div 64" "r mod 64 < 64" using 2 by auto
    then show ?thesis
      using 2 by (intro valid_utf8_one) (simp_all add: encode_rune_def code_char_of cont_def)
  next
    case 3
    have b: "r div 4096 < 16" "r div 64 mod 64 < 64" "r mod 64 < 64" using 3 by auto
    have c: "r div 4096 = 0 \<Longrightarrow> 32 \<le> r div 64 mod 64"
    proof -
      assume "r div 4096 = 0"
      then have "r < 4096" by (simp add: div_eq_0_iff)
      then have "r div 64 < 64" by auto
      moreover have "32 \<le> r div 64" using 3 by auto
      ultimately show ?thesis by simp
    qed
    have d: "r div 4096 = 13 \<Longrightarrow> r div 64 mod 64 < 32"
    proof -
      assume h: "r div 4096 = 13"
      have "r = r div 4096 * 4096 + r mod 4096" by simp
      then have lt: "r < 0xD800" using assms(2) h by auto
      have "r div 64 mod 64 = r div 64 - 64 * (r div 64 div 64)" by (simp add: minus_mult_div_eq_mod)
      moreover have "r div 64 div 64 = 13" using h by (simp add: div_mult2_eq [symmetric])
      moreover have "r div 64 < 864" using lt by auto
      ultimately show ?thesis by simp
    qed
    show ?thesis
      using 3 b c d
      by (intro valid_utf8_one) (auto simp: encode_rune_def code_char_of cont_def second_ok3_def)
  next
    case 4
    have b: "r div 262144 < 5" "r div 4096 mod 64 < 64" "r div 64 mod 64 < 64" "r mod 64 < 64"
      using assms(1) by auto
    have c: "r div 262144 = 0 \<Longrightarrow> 16 \<le> r div 4096 mod 64"
    proof -
      assume "r div 262144 = 0"
      then have "r < 262144" by (simp add: div_eq_0_iff)
      then have "r div 4096 < 64" by auto
      moreover have "16 \<le> r div 4096" using 4 by auto
      ultimately show ?thesis by simp
    qed
    have d: "r div 262144 = 4 \<Longrightarrow> r div 4096 mod 64 < 16"
    proof -
      assume h: "r div 262144 = 4"
      have "r div 4096 mod 64 = r div 4096 - 64 * (r div 4096 div 64)" by (simp add: minus_mult_div_eq_mod)
      moreover have "r div 4096 div 64 = 4" using h by (simp add: div_mult2_eq [symmetric])
      moreover have "r div 4096 < 272" using assms(1) by auto
      ultimately show ?thesis by simp
    qed
    show ?thesis
      using 4 b c d
      by (intro valid_utf8_one) (auto simp: encode_rune_def code_char_of cont_def second_ok4_def)
  qed
qed

lemma hex_val_less: "hex_val c = Some n \<Longrightarrow> n < 16"
  by (auto simp: hex_val_def split: if_splits)

lemma hex4_less: "hex4 s = Some (r, t) \<Longrightarrow> r < 65536"
proof (cases s rule: hex4.cases)
  case (1 a b c d u)
  moreover assume "hex4 s = Some (r, t)"
  ultimately obtain w x y z where
    "hex_val a = Some w" "hex_val b = Some x" "hex_val c = Some y" "hex_val d = Some z"
    "r = ((w * 16 + x) * 16 + y) * 16 + z"
    by (auto simp: bind_eq_Some_conv)
  then show ?thesis
    using hex_val_less [of a w] hex_val_less [of b x] hex_val_less [of c y] hex_val_less [of d z] by simp
qed simp_all

lemma low_half_range: "low_half s = Some (r, t) \<Longrightarrow> 56320 \<le> r \<and> r \<le> 57343"
  by (cases s rule: low_half.cases) (auto split: if_splits option.splits)

lemma valid_unicode_escape: "unicode_escape s = Some (p, t) \<Longrightarrow> valid_utf8 p"
  by (fastforce simp: unicode_escape_def valid_replacement split: if_splits option.splits
      intro!: valid_encode_rune dest: hex4_less low_half_range)

lemma valid_take_rune:
  assumes "utf8_len s \<noteq> 0"
  shows "valid_utf8 (take (utf8_len s) s)"
proof (rule valid_utf8_one)
  show "utf8_len (take (utf8_len s) s) = length (take (utf8_len s) s)"
    using utf8_len_take [OF assms] utf8_len_le [of s] by simp
  show "take (utf8_len s) s \<noteq> []"
    using assms utf8_len_le [of s] by (cases s) auto
qed

lemma emit_eq_Some: "emit p r = Some (x, t) \<longleftrightarrow> (\<exists>y. r = Some (y, t) \<and> x = p @ y)"
  by (auto simp: emit_def)

lemma simple_escape_ascii: "simple_escape e = Some b \<Longrightarrow> valid_utf8 [b]"
  by (auto simp: simple_escape_def split: if_splits)

lemma valid_json_chars: "json_chars s = Some (x, t) \<Longrightarrow> valid_utf8 x"
proof (induction s arbitrary: x t rule: length_induct)
  case (1 s)
  have IH: "valid_utf8 (p @ y)" if "json_chars u = Some (y, t)" "length u < length s" "valid_utf8 p" for u y p
    using 1(1) that by (auto simp: valid_utf8_append)
  obtain c r where s: "s = c # r" using 1(2) by (cases s) (auto simp: json_chars.simps)
  note eq = 1(2) [unfolded s json_chars.simps(2)]
  consider "c = CHR 0x22" | "c = CHR 0x5C" | "c \<noteq> CHR 0x22" "c \<noteq> CHR 0x5C" by blast
  then show ?case
  proof cases
    case 1
    with eq show ?thesis by simp
  next
    case 2
    then obtain e u where r: "r = e # u" using eq by (auto split: list.splits)
    show ?thesis
    proof (cases "e = CHR ''u''")
      case True
      then obtain p v y where "unicode_escape u = Some (p, v)" "json_chars v = Some (y, t)" "x = p @ y"
        using eq 2 r by (auto simp: emit_eq_Some split: option.splits)
      then show ?thesis
        using unicode_escape_shorter [of u p v] s r by (auto intro!: IH dest: valid_unicode_escape)
    next
      case False
      then obtain b y where "simple_escape e = Some b" "json_chars u = Some (y, t)" "x = [b] @ y"
        using eq 2 r by (auto simp: emit_eq_Some split: option.splits)
      then show ?thesis using s r by (auto intro!: IH [of u y "[b]", simplified] dest: simple_escape_ascii)
    qed
  next
    case 3
    let ?n = "utf8_len (c # r)"
    have lt: "\<not> code c < 32" using eq 3 by (simp split: if_splits)
    consider "code c < 128" | "\<not> code c < 128" "?n = 0" | "\<not> code c < 128" "?n \<noteq> 0" by blast
    then show ?thesis
    proof cases
      case 1
      then obtain y where "json_chars r = Some (y, t)" "x = [c] @ y"
        using eq 3 lt by (auto simp: emit_eq_Some)
      then show ?thesis using IH [of r y "[c]"] s 1 by simp
    next
      case 2
      then obtain y where "json_chars r = Some (y, t)" "x = replacement @ y"
        using eq 3 lt by (auto simp: emit_eq_Some simp del: utf8_len.simps)
      then show ?thesis using IH [of r y replacement] s valid_replacement by simp
    next
      case n: 3
      then obtain y where "json_chars (drop ?n (c # r)) = Some (y, t)" "x = take ?n (c # r) @ y"
        using eq 3 lt by (auto simp: emit_eq_Some simp del: utf8_len.simps)
      then show ?thesis
        using IH [of "drop ?n (c # r)" y "take ?n (c # r)"] s n valid_take_rune [of "c # r"] by simp
    qed
  qed
qed

section \<open>Values\<close>

fun json_utf8 :: "json \<Rightarrow> bool" where
  "json_utf8 (JStr s) = valid_utf8 s"
| "json_utf8 (JArr xs) = list_all json_utf8 xs"
| "json_utf8 (JObj ms) = list_all (\<lambda>m. valid_utf8 (fst m) \<and> json_utf8 (snd m)) ms"
| "json_utf8 _ = True"

lemma pval_utf8_all:
  "(\<forall>s j t. pval n s = Some (j, t) \<longrightarrow> json_utf8 j) \<and>
   (\<forall>s xs t. pelems n s = Some (xs, t) \<longrightarrow> list_all json_utf8 xs) \<and>
   (\<forall>s ms t. pmembers n s = Some (ms, t) \<longrightarrow> list_all (\<lambda>m. valid_utf8 (fst m) \<and> json_utf8 (snd m)) ms)"
proof (induction n)
  case (Suc n)
  then have v: "pval n s = Some (j, t) \<Longrightarrow> json_utf8 j"
    and e: "pelems n s = Some (xs, t) \<Longrightarrow> list_all json_utf8 xs"
    and m: "pmembers n s = Some (ms, t) \<Longrightarrow> list_all (\<lambda>m. valid_utf8 (fst m) \<and> json_utf8 (snd m)) ms"
    for s j xs ms t by blast+
  have "json_utf8 j" if "pval (Suc n) s = Some (j, t)" for s j t
    using that by (auto simp: lit_def split: list.splits if_splits dest: valid_json_chars e m)
  moreover have "list_all json_utf8 xs" if elems: "pelems (Suc n) s = Some (xs, t)" for s xs t
  proof -
    obtain w r where 1: "pval n s = Some (w, r)"
      and h: "(case skip_ws r of [] \<Rightarrow> None | q # u \<Rightarrow>
        if q = CHR '','' then map_option (\<lambda>(vs, u). (w # vs, u)) (pelems n u)
        else if q = CHR '']'' then Some ([w], u) else None) = Some (xs, t)"
      using elems by (auto simp: bind_eq_Some_conv)
    then obtain q u where "skip_ws r = q # u" by (cases "skip_ws r") auto
    with h v [OF 1] show ?thesis
      by (auto split: if_splits dest: e)
  qed
  moreover have "list_all (\<lambda>m. valid_utf8 (fst m) \<and> json_utf8 (snd m)) ms"
    if members: "pmembers (Suc n) s = Some (ms, t)" for s ms t
  proof -
    from members obtain c r where c: "skip_ws s = c # r" by (cases "skip_ws s") auto
    with members have quote: "c = CHR 0x22" by (auto split: if_splits)
    with members c obtain k r1 where k: "json_chars r = Some (k, r1)" by (cases "json_chars r") auto
    with members c quote obtain d r2 where d: "skip_ws r1 = d # r2" by (cases "skip_ws r1") auto
    with members c quote k have colon: "d = CHR '':''" by (auto split: if_splits)
    with members c quote k d obtain w r3 where w: "pval n r2 = Some (w, r3)" by (cases "pval n r2") auto
    with members c quote k d colon obtain q u where q: "skip_ws r3 = q # u" by (cases "skip_ws r3") auto
    have "(if q = CHR '','' then map_option (\<lambda>(ms, u). ((k, w) # ms, u)) (pmembers n u)
        else if q = CHR ''}'' then Some ([(k, w)], u) else None) = Some (ms, t)"
      using members c quote k d colon w q by simp
    then show ?thesis
      using valid_json_chars [OF k] v [OF w] by (auto split: if_splits dest: m)
  qed
  ultimately show ?case by blast
qed simp

lemmas pval_utf8 = pval_utf8_all [THEN conjunct1, rule_format]

lemma parse_json_utf8: "parse_json s = Some j \<Longrightarrow> json_utf8 j"
  by (auto simp: parse_json_def simp del: pval.simps split: option.splits if_splits prod.splits dest: pval_utf8)

section \<open>Decoding\<close>

text \<open>A decoder keeps a property of values, on trees with valid strings.\<close>

definition keeps :: "('a \<Rightarrow> bool) \<Rightarrow> 'a decoder \<Rightarrow> bool" where
  "keeps P d \<longleftrightarrow> (\<forall>cur j. P cur \<longrightarrow> json_utf8 j \<longrightarrow> P (fst (d cur j)))"

definition keeps_field :: "('a \<Rightarrow> bool) \<Rightarrow> 'a field_decoder \<Rightarrow> bool" where
  "keeps_field P f \<longleftrightarrow> (\<forall>cur k j. P cur \<longrightarrow> json_utf8 j \<longrightarrow> P (fst (f cur k j)))"

named_theorems keeps_intros \<open>decoders keep a property of values\<close>

lemma keeps_string [keeps_intros]: "keeps valid_utf8 dec_string"
  by (simp add: keeps_def dec_string_def split: json.split)

lemma keeps_slice [keeps_intros]:
  assumes "keeps P d" "P z"
  shows "keeps (\<lambda>xs. \<forall>x \<in> set xs. P x) (dec_slice d z)"
proof -
  have "\<forall>x \<in> set (fst (dec_elems d z cur js)). P x"
    if "\<forall>x \<in> set cur. P x" "list_all json_utf8 js" for cur js
    using that
  proof (induction js arbitrary: cur)
    case (Cons j js)
    let ?c = "case cur of [] \<Rightarrow> z | c # _ \<Rightarrow> c"
    have "P ?c" using Cons.prems(1) assms(2) by (cases cur) auto
    then have "P (fst (d ?c j))" using assms(1) Cons.prems(2) by (simp add: keeps_def)
    moreover have "\<forall>x \<in> set (tl cur). P x" using Cons.prems(1) by (cases cur) auto
    then have "\<forall>x \<in> set (fst (dec_elems d z (tl cur) js)). P x" using Cons by simp
    ultimately show ?case by (simp add: Let_def case_prod_beta')
  qed simp
  then show ?thesis by (auto simp: keeps_def dec_slice_def split: json.split)
qed

lemma keeps_map [keeps_intros]:
  assumes "keeps P d" "P z"
  shows "keeps (\<lambda>m. map_ok m \<and> (\<forall>(k, v) \<in> set m. valid_utf8 k \<and> P v)) (dec_map d z)"
proof -
  have "\<forall>(k, v) \<in> set (fst (dec_entries d z cur ms)). valid_utf8 k \<and> P v"
    if "\<forall>(k, v) \<in> set cur. valid_utf8 k \<and> P v"
      "list_all (\<lambda>m. valid_utf8 (fst m) \<and> json_utf8 (snd m)) ms" for cur ms
    using that
  proof (induction ms arbitrary: cur)
    case (Cons m ms)
    obtain k j where m: "m = (k, j)" by (cases m)
    have "P (fst (d z j))" using assms Cons.prems(2) m by (simp add: keeps_def)
    then have "\<forall>(k', v) \<in> set (mput k (fst (d z j)) cur). valid_utf8 k' \<and> P v"
      using Cons.prems m by (auto dest!: set_mput)
    from Cons.IH [OF this] Cons.prems(2) m show ?case by (simp add: Let_def case_prod_unfold)
  qed simp
  note entries = this
  show ?thesis
    unfolding keeps_def
  proof (intro allI impI)
    fix cur j
    assume "map_ok cur \<and> (\<forall>(k, v) \<in> set cur. valid_utf8 k \<and> P v)" "json_utf8 j"
    then show "map_ok (fst (dec_map d z cur j)) \<and> (\<forall>(k, v) \<in> set (fst (dec_map d z cur j)). valid_utf8 k \<and> P v)"
      using entries [of cur] by (cases j) (simp_all add: dec_map_def dec_entries_map_ok)
  qed
qed

lemma keeps_ptr [keeps_intros]:
  "keeps P d \<Longrightarrow> P z \<Longrightarrow> keeps (\<lambda>x. \<forall>v. x = Some v \<longrightarrow> P v) (dec_ptr d z)"
  unfolding keeps_def
proof (intro allI impI)
  fix cur j v
  assume d: "\<forall>cur j. P cur \<longrightarrow> json_utf8 j \<longrightarrow> P (fst (d cur j))" and z: "P z"
    and cur: "\<forall>v. cur = Some v \<longrightarrow> P v" and j: "json_utf8 j" and v: "fst (dec_ptr d z cur j) = Some v"
  let ?c = "case cur of None \<Rightarrow> z | Some c \<Rightarrow> c"
  have "P ?c" using cur z by (cases cur) auto
  then have "P (fst (d ?c j))" using d j by blast
  then show "P v"
    using v by (cases j) (auto simp: dec_ptr_def Let_def case_prod_beta')
qed

lemma keeps_struct [keeps_intros]:
  assumes "keeps_field P f"
  shows "keeps P (dec_struct f)"
proof -
  have "P (fst (dec_fields f cur ms))"
    if "P cur" "list_all (\<lambda>m. valid_utf8 (fst m) \<and> json_utf8 (snd m)) ms" for cur ms
    using that
  proof (induction ms arbitrary: cur)
    case (Cons m ms)
    obtain k j where m: "m = (k, j)" by (cases m)
    have "P (fst (f cur k j))" using assms Cons.prems m by (simp add: keeps_field_def)
    with Cons m show ?case by (simp add: Let_def case_prod_beta')
  qed simp
  then show ?thesis by (simp add: keeps_def dec_struct_def split: json.split)
qed

lemma keeps_unmarshal:
  "keeps P d \<Longrightarrow> P cur \<Longrightarrow> unmarshal d cur data = Inr v \<Longrightarrow> P v"
  by (auto simp: unmarshal_def keeps_def split: option.splits prod.splits if_splits dest!: parse_json_utf8)
    (metis fst_conv)

lemma keeps_into:
  assumes "keeps Q d" "P cur" "json_utf8 j" "Q (get cur)" "\<And>v. Q v \<Longrightarrow> P (put v cur)"
  shows "P (fst (field_into d get put cur j))"
  using assms by (simp add: keeps_def field_into_def case_prod_unfold Let_def)

lemma keeps_any: "keeps (\<lambda>_. True) d"
  by (simp add: keeps_def)

lemma keeps_structI:
  "(\<And>cur k j. P cur \<Longrightarrow> json_utf8 j \<Longrightarrow> P (fst (f cur k j))) \<Longrightarrow> keeps P (dec_struct f)"
  by (rule keeps_struct) (simp add: keeps_field_def)

lemma fst_ifI: "(c \<Longrightarrow> P (fst a)) \<Longrightarrow> (\<not> c \<Longrightarrow> P (fst b)) \<Longrightarrow> P (fst (if c then a else b))"
  by simp

lemmas keeps_rules = keeps_string keeps_slice keeps_map keeps_ptr keeps_struct keeps_any

end
