(* ===== verification/StoredDoc.thy ===== *)
theory StoredDoc
  imports Inventory JsonUtf8
begin

text \<open>
  The way the program keeps a small JSON document in a file: make the directory, marshal,
  write the whole file in place. The identity, the inventory and the supervisor's state are
  kept like this; the locale is what the session relies on for each of them.
\<close>

definition save_text :: "string \<Rightarrow> string \<Rightarrow> fs \<Rightarrow> unit result \<times> fs" where
  "save_text path data fs =
     (case mkdir_all (dir_path path) fs of
        (Inl e, fs1) \<Rightarrow> (Inl e, fs1)
      | (Inr _, fs1) \<Rightarrow> write_file path data fs1)"

lemma save_text_cases:
  obtains e fs1 where "save_text path data fs = (Inl e, fs1)" "mkdir_all (dir_path path) fs = (Inl e, fs1)"
  | fs1 where "mkdir_all (dir_path path) fs = (Inr (), fs1)" "save_text path data fs = write_file path data fs1"
  by (cases "mkdir_all (dir_path path) fs"; cases "fst (mkdir_all (dir_path path) fs)")
    (auto simp: save_text_def)

lemma save_text_read:
  assumes "save_text path data fs = (Inr (), fs')" "\<not> fs_refuses fs OpRead path"
  shows "read_file path fs' = Inr data"
proof (cases rule: save_text_cases [of path data fs])
  case (2 fs1)
  have "fs_refuses fs1 = fs_refuses fs"
    using fs_refuses_kept(2) [of "dir_path path" fs] 2(1) by simp
  with 2 assms read_after_write [of path data fs1 fs'] show ?thesis by simp
qed (use assms in simp)

text \<open>Another file is not touched; at most a directory appears where nothing was.\<close>

lemma save_text_other: "q \<noteq> path \<Longrightarrow> fs_nodes (snd (save_text path data fs)) q = Some (File d) \<longleftrightarrow> fs_nodes fs q = Some (File d)"
proof (cases rule: save_text_cases [of path data fs])
  case (1 e fs1)
  then show ?thesis using mkdir_all_file [of "dir_path path" fs q d] by simp
next
  case (2 fs1)
  moreover assume "q \<noteq> path"
  ultimately show ?thesis
    using mkdir_all_file [of "dir_path path" fs q d] by (simp add: write_file_nodes)
qed

lemma save_text_refuses [simp]: "fs_refuses (snd (save_text path data fs)) = fs_refuses fs"
proof (cases rule: save_text_cases [of path data fs])
  case (1 e fs1)
  then show ?thesis using fs_refuses_kept(2) [of "dir_path path" fs] by simp
next
  case (2 fs1)
  then show ?thesis using fs_refuses_kept(2) [of "dir_path path" fs] by simp
qed

lemma read_file_Inr:
  "read_file p fs = Inr d \<longleftrightarrow> \<not> fs_refuses fs OpRead p \<and> fs_nodes fs p = Some (File d)"
  by (auto simp: read_file_def split: option.splits node.splits)

lemma save_text_read_other:
  "q \<noteq> path \<Longrightarrow> read_file q (snd (save_text path data fs)) = Inr d \<longleftrightarrow> read_file q fs = Inr d"
  by (simp add: read_file_Inr save_text_other)

locale stored_doc =
  fixes text_of :: "'a \<Rightarrow> string"
    and parse :: "string \<Rightarrow> 'a result"
    and good :: "'a \<Rightarrow> bool"
  assumes parse_text: "good x \<Longrightarrow> parse (text_of x) = Inr x"
begin

lemma saved_reads:
  assumes "save_text path (text_of x) fs = (Inr (), fs')" "good x" "\<not> fs_refuses fs OpRead path"
  shows "rbind (read_file path fs') parse = Inr x"
  using save_text_read [OF assms(1,3)] assms(2) by (simp add: parse_text)

text \<open>Saving other documents afterwards does not change what is read back.\<close>

lemma survives:
  assumes "save_text path (text_of x) fs = (Inr (), fs')" "good x" "\<not> fs_refuses fs OpRead path"
    and "\<forall>(q, d) \<in> set ws. q \<noteq> path"
  shows "rbind (read_file path (fold (\<lambda>(q, d) f. snd (save_text q d f)) ws fs')) parse = Inr x"
proof -
  have "read_file path (fold (\<lambda>(q, d) f. snd (save_text q d f)) ws f) = Inr (text_of x)"
    if "read_file path f = Inr (text_of x)" for f
    using that assms(4) by (induction ws arbitrary: f) (auto simp: save_text_read_other)
  then show ?thesis
    using save_text_read [OF assms(1,3)] assms(2) by (simp add: parse_text)
qed

end

text \<open>The inventory file.\<close>

interpretation inventory_file: stored_doc inventory_text "unmarshal dec_inventory zero_inventory" utf8_inventory
  by unfold_locales (rule unmarshal_inventory_text)

section \<open>What is read can be written\<close>

lemma keeps_front: "keeps utf8_front (dec_struct front_field)"
  by (rule keeps_structI, unfold front_field_def,
      intro fst_ifI [where P = utf8_front] keeps_into [OF keeps_string, where P = utf8_front]
        keeps_into [OF keeps_map [OF keeps_string], where P = utf8_front])
    (simp_all add: utf8_front_def)

lemma keeps_group: "keeps utf8_group (dec_struct group_field)"
proof -
  have z: "utf8_front zero_front" by (simp add: utf8_front_def zero_front_def)
  show ?thesis
    by (rule keeps_structI, unfold group_field_def,
        intro fst_ifI [where P = utf8_group] keeps_into [OF keeps_string, where P = utf8_group]
          keeps_into [OF keeps_slice [OF keeps_string], where P = utf8_group]
          keeps_into [OF keeps_ptr [OF keeps_front z], where P = utf8_group])
      (simp_all add: utf8_group_def)
qed

lemma keeps_host: "keeps utf8_host (dec_struct host_field)"
  by (rule keeps_structI, unfold host_field_def,
      intro fst_ifI [where P = utf8_host] keeps_into [OF keeps_string, where P = utf8_host]
        keeps_into [OF keeps_any, where d = dec_bool and P = utf8_host])
    (simp_all add: utf8_host_def)

lemma keeps_inventory: "keeps utf8_inventory dec_inventory"
proof -
  have z: "utf8_host zero_host" "utf8_group zero_group"
    by (simp_all add: utf8_host_def zero_host_def utf8_group_def zero_group_def)
  show ?thesis
    unfolding dec_inventory_def
    by (rule keeps_structI, unfold inventory_field_def,
        intro fst_ifI [where P = utf8_inventory] keeps_into [OF keeps_string, where P = utf8_inventory]
          keeps_into [OF keeps_slice [OF keeps_string], where P = utf8_inventory]
          keeps_into [OF keeps_slice [OF keeps_host z(1)], where P = utf8_inventory]
          keeps_into [OF keeps_slice [OF keeps_group z(2)], where P = utf8_inventory])
      (simp_all add: utf8_inventory_def)
qed

lemma utf8_zero_inventory: "utf8_inventory zero_inventory"
  by (simp add: utf8_inventory_def zero_inventory_def)

lemma load_utf8: "load path fs = Inr iv \<Longrightarrow> utf8_inventory iv"
  using keeps_unmarshal [OF keeps_inventory utf8_zero_inventory] by (auto simp: load_def res_simps)

lemma fill_missing_utf8:
  "utf8_inventory iv \<Longrightarrow> utf8_inventory p \<Longrightarrow> utf8_inventory (fill_missing_from iv (Some p))"
  by (auto simp: utf8_inventory_def fill_missing_fields)

end
