(* ===== verification/Identity.thy ===== *)
theory Identity
  imports StoredDoc
begin

text \<open>
  \<open>internal/control/identity.go\<close>: the client identity and its file. An Ed25519 private key
  is its 64 bytes, the last 32 of which are the public key. The 16 random bytes and the
  generated key are results of the system's random source, which may fail.
\<close>

unbundle bit_operations_syntax

section \<open>Operations\<close>

record identity =
  id_client :: string
  id_key :: string
  id_ticket :: string

record identity_file =
  idf_client :: string
  idf_key :: string
  idf_ticket :: string

definition identity_json :: "identity_file \<Rightarrow> json" where
  "identity_json f = JObj
     ([(''client_id'', JStr (idf_client f)), (''signing_key'', JStr (idf_key f))]
      @ (if idf_ticket f = [] then [] else [(''pending_ticket'', JStr (idf_ticket f))]))"

definition identity_field :: "identity_file field_decoder" where
  "identity_field cur key j =
     (if key_is ''client_id'' key then field_into dec_string idf_client (\<lambda>v. idf_client_update (\<lambda>_. v)) cur j
      else if key_is ''signing_key'' key then field_into dec_string idf_key (\<lambda>v. idf_key_update (\<lambda>_. v)) cur j
      else if key_is ''pending_ticket'' key then
        field_into dec_string idf_ticket (\<lambda>v. idf_ticket_update (\<lambda>_. v)) cur j
      else (cur, True))"

definition format_uuid :: "string \<Rightarrow> string" where
  "format_uuid raw =
     (let s = hex_encode raw
      in take 8 s @ ''-'' @ take 4 (drop 8 s) @ ''-'' @ take 4 (drop 12 s) @ ''-''
           @ take 4 (drop 16 s) @ ''-'' @ drop 20 s)"

definition stamp_uuid :: "string \<Rightarrow> string" where
  "stamp_uuid raw =
     (let r1 = raw[6 := char_of (of_char (raw ! 6) AND 0x0F OR 0x80 :: nat)]
      in r1[8 := char_of (of_char (r1 ! 8) AND 0x3F OR 0x80 :: nat)])"

definition new_identity :: "string result \<Rightarrow> string result \<Rightarrow> identity result" where
  "new_identity random16 generated =
     rbind random16 (\<lambda>raw. rbind generated (\<lambda>priv.
       Inr \<lparr>id_client = format_uuid (stamp_uuid raw), id_key = priv, id_ticket = []\<rparr>))"

definition public_key :: "identity \<Rightarrow> string" where
  "public_key i = b64_encode RawURLEncoding (drop 32 (id_key i))"

definition parse_identity :: "string \<Rightarrow> string \<Rightarrow> identity result" where
  "parse_identity path data =
     rbind (rwrap (\<lambda>e. Errorf ''parse identity %s: %w'' [AStr path, AErr e])
              (unmarshal (dec_struct identity_field) \<lparr>idf_client = [], idf_key = [], idf_ticket = []\<rparr> data)) (\<lambda>f.
     case b64_decode RawURLEncoding (idf_key f) of
       None \<Rightarrow> Inl (Errorf ''parse identity %s: %w'' [AStr path, AErr (ErrLib ''base64'' (idf_key f))])
     | Some key \<Rightarrow>
         rbind (rcheck (length key = 64) (Errorf ''stored signing key has the wrong size'' [])) (\<lambda>_.
         rbind (rcheck (idf_client f \<noteq> []) (Errorf ''stored identity has no client id'' [])) (\<lambda>_.
         Inr \<lparr>id_client = idf_client f, id_key = key, id_ticket = idf_ticket f\<rparr>)))"

definition load_identity :: "string \<Rightarrow> fs \<Rightarrow> identity result" where
  "load_identity path fs = rbind (read_file path fs) (parse_identity path)"

definition identity_text :: "identity \<Rightarrow> string" where
  "identity_text i =
     marshal_indent (identity_json \<lparr>idf_client = id_client i,
        idf_key = b64_encode RawURLEncoding (id_key i), idf_ticket = id_ticket i\<rparr>) @ [CHR 0x0A]"

definition save_identity :: "string \<Rightarrow> identity \<Rightarrow> fs \<Rightarrow> unit result \<times> fs" where
  "save_identity path i fs = save_text path (identity_text i) fs"

section \<open>New identities\<close>

lemma stamp_bits:
  "k \<le> 7 \<Longrightarrow> (take_bit k n OR 0x80 :: nat) = take_bit k n + 0x80"
proof -
  assume k: "k \<le> 7"
  have "\<not> bit (take_bit k n) i \<or> \<not> bit (push_bit 7 (1 :: nat)) i" for i
    using k unfolding bit_take_bit_iff bit_push_bit_iff by auto
  then have "take_bit k n + push_bit 7 1 = (take_bit k n OR push_bit 7 1 :: nat)"
    by (intro disjunctive_add) blast
  moreover have "push_bit 7 (1 :: nat) = 0x80" by (simp add: push_bit_eq_mult)
  ultimately show ?thesis by simp
qed

lemma stamped:
  "(n AND 0x0F OR 0x80 :: nat) = n mod 16 + 0x80"
  "(n AND 0x3F OR 0x80 :: nat) = n mod 64 + 0x80"
proof -
  have "n AND 0x0F = take_bit 4 n" "n AND 0x3F = take_bit 6 n"
    by (simp_all add: take_bit_eq_mask mask_eq_exp_minus_1)
  then show "(n AND 0x0F OR 0x80 :: nat) = n mod 16 + 0x80" "(n AND 0x3F OR 0x80 :: nat) = n mod 64 + 0x80"
    using stamp_bits [of 4 n] stamp_bits [of 6 n] by (simp_all add: take_bit_eq_mod)
qed

lemma length_stamp_uuid [simp]: "length (stamp_uuid raw) = length raw"
  by (simp add: stamp_uuid_def Let_def)

lemma stamp_uuid_nth:
  assumes "length raw = 16"
  shows "of_char (stamp_uuid raw ! 6) div 16 = (8 :: nat)"
    "of_char (stamp_uuid raw ! 8) div 64 = (2 :: nat)"
    "i \<noteq> 6 \<Longrightarrow> i \<noteq> 8 \<Longrightarrow> stamp_uuid raw ! i = raw ! i"
proof -
  have "n mod 16 + 128 < 256" "n mod 64 + 128 < 256" for n :: nat
    using mod_less_divisor [of 16 n] mod_less_divisor [of 64 n] by simp_all
  then have m: "(n mod 16 + 128) mod 256 = n mod 16 + 128" "(n mod 64 + 128) mod 256 = n mod 64 + 128" for n :: nat
    by simp_all
  show "of_char (stamp_uuid raw ! 6) div 16 = (8 :: nat)"
    using assms by (simp add: stamp_uuid_def Let_def stamped of_char_of m)
  show "of_char (stamp_uuid raw ! 8) div 64 = (2 :: nat)"
    using assms by (simp add: stamp_uuid_def Let_def stamped of_char_of m)
  show "i \<noteq> 6 \<Longrightarrow> i \<noteq> 8 \<Longrightarrow> stamp_uuid raw ! i = raw ! i"
    by (simp add: stamp_uuid_def Let_def)
qed

lemma hex_encode_nth:
  "i < length s \<Longrightarrow> hex_encode s ! (2 * i) = hex_digit (of_char (s ! i) div 16)"
  "i < length s \<Longrightarrow> hex_encode s ! Suc (2 * i) = hex_digit (of_char (s ! i) mod 16)"
  by (induction s arbitrary: i) (auto simp: hex_encode_def nth_Cons split: nat.splits)

lemma format_uuid_nth:
  assumes "length raw = 16"
  shows "length (format_uuid raw) = 36"
    and "format_uuid raw ! 8 = CHR ''-''" "format_uuid raw ! 13 = CHR ''-''"
    and "format_uuid raw ! 18 = CHR ''-''" "format_uuid raw ! 23 = CHR ''-''"
    and "format_uuid raw ! 14 = hex_digit (of_char (raw ! 6) div 16)"
    and "format_uuid raw ! 19 = hex_digit (of_char (raw ! 8) div 16)"
  using assms hex_encode_nth(1) [of 6 raw] hex_encode_nth(1) [of 8 raw]
  by (simp_all add: format_uuid_def Let_def nth_append)

lemma set_hex_encode: "set (hex_encode s) \<subseteq> hex_digit ` {..<16}"
proof -
  have "hex_digit (of_char c div 16) \<in> hex_digit ` {..<16}" "hex_digit (of_char c mod 16) \<in> hex_digit ` {..<16}"
    for c :: char
    using of_char_less [of c] less_mult_imp_div_less [of "code c" 16 16] by (auto intro!: imageI)
  then show ?thesis by (auto simp: hex_encode_def)
qed

lemma set_format_uuid: "set (format_uuid raw) \<subseteq> insert CHR ''-'' (hex_digit ` {..<16})"
  using set_hex_encode [of raw]
  by (auto simp: format_uuid_def Let_def dest!: in_set_takeD in_set_dropD)

lemma hex_digit_set: "hex_digit ` {..<16} = set ''0123456789abcdef''"
proof -
  have "hex_digit ` {..<16} = (!) ''0123456789abcdef'' ` {..<length ''0123456789abcdef''}"
    by (auto simp: hex_digit_def)
  also have "\<dots> = set ''0123456789abcdef''" by (auto simp: set_conv_nth)
  finally show ?thesis .
qed

text \<open>
  C35: A new identity is a 36-character UUID in lower-case hex with its dashes in place, whose
  version digit is 8 and whose variant digit is 8, 9, a or b, and it awaits no approval.
\<close>

lemma new_identity_uuid:
  assumes "new_identity random16 generated = Inr i" "\<And>raw. random16 = Inr raw \<Longrightarrow> length raw = 16"
  shows "length (id_client i) = 36 \<and> set (id_client i) \<subseteq> set ''-0123456789abcdef''
    \<and> (\<forall>p \<in> {8, 13, 18, 23}. id_client i ! p = CHR ''-'')
    \<and> id_client i ! 14 = CHR ''8'' \<and> id_client i ! 19 \<in> set ''89ab'' \<and> id_ticket i = []"
proof -
  obtain raw priv where raw: "random16 = Inr raw"
    and i: "i = \<lparr>id_client = format_uuid (stamp_uuid raw), id_key = priv, id_ticket = []\<rparr>"
    using assms(1) by (auto simp: new_identity_def res_simps)
  have len: "length raw = 16" using assms(2) raw by simp
  let ?r = "stamp_uuid raw"
  have "of_char (?r ! 8) div 64 = (2 :: nat)" by (rule stamp_uuid_nth(2)) (rule len)
  then have "of_char (?r ! 8) div 16 \<in> {8, 9, 10, 11 :: nat}" by auto
  moreover have "set (format_uuid ?r) \<subseteq> set ''-0123456789abcdef''"
    using set_format_uuid [of ?r] unfolding hex_digit_set by auto
  ultimately show ?thesis
    using format_uuid_nth [of ?r] len stamp_uuid_nth(1) [OF len] i
    by (auto simp: hex_digit_def)
qed

lemma new_identity_uuid_witness:
  "\<exists>i. new_identity (Inr (replicate 16 CHR 0x00)) (Inr (replicate 64 CHR 0x01)) = Inr i
    \<and> id_client i ! 14 = CHR ''8''"
proof -
  obtain i where "new_identity (Inr (replicate 16 CHR 0x00)) (Inr (replicate 64 CHR 0x01)) = Inr i"
    by (simp add: new_identity_def)
  with new_identity_uuid [OF this] show ?thesis by auto
qed

section \<open>The identity file\<close>

definition good_identity :: "identity \<Rightarrow> bool" where
  "good_identity i \<longleftrightarrow> id_client i \<noteq> [] \<and> valid_utf8 (id_client i) \<and> valid_utf8 (id_ticket i) \<and> length (id_key i) = 64"

lemma identity_keys [simp]:
  "\<not> key_is ''client_id'' ''signing_key''" "\<not> key_is ''client_id'' ''pending_ticket''"
  "\<not> key_is ''signing_key'' ''pending_ticket''"
  by code_simp+

lemma valid_utf8_identity_keys [simp]:
  "valid_utf8 ''client_id''" "valid_utf8 ''signing_key''" "valid_utf8 ''pending_ticket''"
  by code_simp+

lemma parse_identity_text: "good_identity i \<Longrightarrow> parse_identity path (identity_text i) = Inr i"
proof -
  assume good: "good_identity i"
  let ?f = "\<lparr>idf_client = id_client i, idf_key = b64_encode RawURLEncoding (id_key i), idf_ticket = id_ticket i\<rparr>"
  have "unmarshal (dec_struct identity_field) \<lparr>idf_client = [], idf_key = [], idf_ticket = []\<rparr> (identity_text i) = Inr ?f"
    unfolding identity_text_def using good
    by (intro unmarshal_marshal)
      (auto simp: identity_json_def identity_field_def field_into_def good_identity_def)
  with good show ?thesis
    by (simp add: parse_identity_def b64_roundtrip good_identity_def)
qed

interpretation identity_file: stored_doc identity_text "parse_identity path" good_identity for path
  by unfold_locales (rule parse_identity_text)

text \<open>
  C33: An identity that was saved is loaded again as it was, key, client id and pending ticket,
  also after other documents have been saved to other files.
\<close>

lemma identity_roundtrip:
  assumes "save_identity path i fs = (Inr (), fs')" "good_identity i" "\<not> fs_refuses fs OpRead path"
    and "\<forall>(q, d) \<in> set ws. q \<noteq> path"
  shows "load_identity path fs' = Inr i
    \<and> load_identity path (fold (\<lambda>(q, d) f. snd (save_text q d f)) ws fs') = Inr i"
  using identity_file.saved_reads [of path i fs fs'] identity_file.survives [of path i fs fs' ws] assms
  by (simp add: load_identity_def save_identity_def)

definition sample_identity :: identity where
  "sample_identity = \<lparr>id_client = ''id'', id_key = replicate 64 CHR 0x01, id_ticket = ''t''\<rparr>"

lemma good_sample_identity: "good_identity sample_identity"
  by (simp add: good_identity_def sample_identity_def)

lemma dir_identity: "dir_path ''/d/identity.json'' = ''/d''"
  by code_simp

lemma save_sample_identity:
  "\<exists>fs'. save_identity ''/d/identity.json'' i (plain_fs []) = (Inr (), fs')"
  by (auto simp: save_identity_def save_text_def dir_identity mkdir_all_def write_file_def plain_fs_def put_node_def)

lemma identity_roundtrip_witness:
  "\<exists>fs'. save_identity ''/d/identity.json'' sample_identity (plain_fs []) = (Inr (), fs')
    \<and> load_identity ''/d/identity.json'' (snd (save_text ''/d/inv.json'' ''{}'' fs')) = Inr sample_identity"
proof -
  obtain fs' where fs': "save_identity ''/d/identity.json'' sample_identity (plain_fs []) = (Inr (), fs')"
    using save_sample_identity by blast
  with identity_roundtrip [OF fs' good_sample_identity, of "[(''/d/inv.json'', ''{}'')]"]
  show ?thesis by (simp add: plain_fs_def)
qed

text \<open>
  C34: Saving is not atomic: when the disk is full, a failed \<open>Save\<close> leaves an empty file, and
  loading then fails with an error that is not \<open>os.ErrNotExist\<close>, so no caller replaces the
  identity that is lost.
\<close>

lemma failed_save_loses_identity:
  assumes "fs_nodes fs path = Some (File d)" "fs_nodes fs (dir_path path) = Some Dir"
    and "fs_refuses fs = (\<lambda>_ _. False)" "fs_room fs path = Some 0"
  shows "\<exists>e e'. fst (save_identity path i fs) = Inl e
    \<and> load_identity path (snd (save_identity path i fs)) = Inl e' \<and> \<not> is_not_exist e'"
proof -
  have "save_text path (identity_text i) fs
      = (Inl (ErrLib ''os.WriteFile'' path), put_node path (Some (File [])) fs)"
    using assms by (simp add: save_text_def mkdir_all_def write_file_def identity_text_def)
  moreover have "parse_json [] = None"
    by (simp add: parse_json_def skip_ws_def)
  ultimately show ?thesis
    using assms(3) by (simp add: save_identity_def load_identity_def read_file_def parse_identity_def
        unmarshal_def)
qed

lemma failed_save_loses_identity_witness:
  "\<exists>fs e. load_identity ''/d/identity.json'' fs = Inr sample_identity
    \<and> load_identity ''/d/identity.json'' (snd (save_identity ''/d/identity.json'' sample_identity fs)) = Inl e
    \<and> \<not> is_not_exist e"
proof -
  let ?fs = "(plain_fs [(''/d'', Dir), (''/d/identity.json'', File (identity_text sample_identity))])
      \<lparr>fs_room := \<lambda>_. Some 0\<rparr>"
  have "load_identity ''/d/identity.json'' ?fs = Inr sample_identity"
    by (simp add: load_identity_def read_file_def plain_fs_def parse_identity_text good_sample_identity)
  with failed_save_loses_identity [of ?fs "''/d/identity.json''" "identity_text sample_identity" sample_identity]
  show ?thesis by (auto simp: plain_fs_def dir_identity)
qed

end
