(* ===== verification/Client.thy ===== *)
theory Client
  imports Identity
begin

text \<open>
  \<open>internal/control/client.go\<close> and \<open>internal/control/authorize.go\<close>: the signed requests and
  sealed responses of the control plane, and the call that approves a ticket.

  What is not in the repository is the record \<open>client_env\<close>: the random source and the HPKE key
  generator (each by the number of exchanges begun so far), SHA-256, Ed25519 signing, the clock,
  \<open>url.Parse\<close>, the HTTP server (its answer to a request, given all earlier ones) and
  \<open>hpke.Open\<close>. What calls change is the record \<open>world\<close>: the files, the requests sent, the
  number of exchanges begun, the log, and whether the TLS state has been reported
  (\<open>reportTLS\<close>, a \<open>sync.Once\<close>).
\<close>

section \<open>The world\<close>

record url =
  url_scheme :: string
  url_user :: bool
  url_host :: string
  url_hostname :: string
  url_path :: string
  url_text :: string

record http_req =
  hr_method :: string
  hr_url :: string
  hr_host :: string
  hr_path :: string
  hr_headers :: "(string, string) gomap"
  hr_body :: string

text \<open>\<open>rs_tls\<close>: whether ECH was accepted, when the connection was TLS; \<open>rs_body\<close>: what reading it gives.\<close>

record http_resp =
  rs_code :: int
  rs_status :: string
  rs_content_type :: string
  rs_tls :: "bool option"
  rs_body :: "string result"

record client_env =
  ce_random :: "nat \<Rightarrow> string result"
  ce_hpke_key :: "nat \<Rightarrow> (string \<times> string) result"
  ce_sha256 :: "string \<Rightarrow> string"
  ce_sign :: "string \<Rightarrow> string \<Rightarrow> string"
  ce_now :: "nat \<Rightarrow> int"
  ce_url :: "string \<Rightarrow> url result"
  ce_http :: "http_req list \<Rightarrow> http_req \<Rightarrow> http_resp result"
  ce_hpke_open :: "string \<Rightarrow> string \<Rightarrow> string \<Rightarrow> string result"

record world =
  w_fs :: fs
  w_sent :: "http_req list"
  w_exchanges :: nat
  w_log :: "(string \<times> garg list) list"
  w_tls_reported :: bool

record client =
  cl_endpoint :: string
  cl_platform :: string
  cl_app_version :: string
  cl_identity :: identity
  cl_expect_ech :: bool

definition logf :: "string \<Rightarrow> garg list \<Rightarrow> world \<Rightarrow> world" where
  "logf fmt args w = w\<lparr>w_log := w_log w @ [(fmt, args)]\<rparr>"

text \<open>\<open>c.HTTP.Do\<close>: the request is sent whether or not an answer comes back.\<close>

definition http_do :: "client_env \<Rightarrow> http_req \<Rightarrow> world \<Rightarrow> http_resp result \<times> world" where
  "http_do env req w = (ce_http env (w_sent w) req, w\<lparr>w_sent := w_sent w @ [req]\<rparr>)"

section \<open>Requests\<close>

definition new_client :: "identity \<Rightarrow> client" where
  "new_client i = \<lparr>cl_endpoint = ''https://client-api.nexttun.net/api/v1/client'',
     cl_platform = ''windows'', cl_app_version = ''0.2.4'', cl_identity = i, cl_expect_ech = False\<rparr>"

record exchange =
  ex_operation :: string
  ex_nonce :: string
  ex_nonce_raw :: string
  ex_key :: string
  ex_pub :: string

definition new_exchange :: "client_env \<Rightarrow> string \<Rightarrow> world \<Rightarrow> exchange result \<times> world" where
  "new_exchange env op w =
     (let k = w_exchanges w; w1 = w\<lparr>w_exchanges := Suc k\<rparr>
      in (rbind (ce_random env k) (\<lambda>raw. rbind (ce_hpke_key env k) (\<lambda>(priv, pub).
            Inr \<lparr>ex_operation = op, ex_nonce = b64_encode RawURLEncoding raw, ex_nonce_raw = raw,
                 ex_key = priv, ex_pub = b64_encode RawURLEncoding pub\<rparr>)), w1))"

definition dquote :: "string \<Rightarrow> string" where
  "dquote s = CHR 0x22 # s @ [CHR 0x22]"

text \<open>\<open>json.Marshal\<close> of a struct or a map whose values are all strings.\<close>

definition marshal_strings :: "(string \<times> string) list \<Rightarrow> string" where
  "marshal_strings ms =
     ''{'' @ join '','' (map (\<lambda>(k, v). quote_json k @ '':'' @ quote_json v) ms) @ ''}''"

definition identity_request :: "client \<Rightarrow> string" where
  "identity_request cl = marshal_strings
     [(''client_id'', id_client (cl_identity cl)), (''platform'', cl_platform cl),
      (''app_version'', cl_app_version cl)]"

definition ticket_request :: "client \<Rightarrow> string \<Rightarrow> string" where
  "ticket_request cl ticket = marshal_strings
     [(''ticket'', ticket), (''app_version'', cl_app_version cl)]"

definition signed_components :: string where
  "signed_components = ''('' @ join '' '' (map dquote
     [''@method'', ''@authority'', ''@path'', ''content-type'', ''content-digest'',
      ''tunnet-public-key'', ''tunnet-response-key'']) @ '')''"

definition signature_params :: "string \<Rightarrow> exchange \<Rightarrow> int \<Rightarrow> string" where
  "signature_params client_id ex created =
     signed_components @ '';created='' @ itoa created @ '';expires='' @ itoa (wrap64 (created + 120))
       @ '';keyid='' @ dquote client_id @ '';alg='' @ dquote ''ed25519''
       @ '';nonce='' @ dquote (ex_nonce ex)
       @ '';tag='' @ dquote (ex_operation ex @ '':'' @ ''tunnet-client-v1'')"

definition header :: "http_req \<Rightarrow> string \<Rightarrow> string" where
  "header req k = (case map_of (hr_headers req) k of None \<Rightarrow> [] | Some v \<Rightarrow> v)"

definition set_header :: "string \<Rightarrow> string \<Rightarrow> http_req \<Rightarrow> http_req" where
  "set_header k v req = req\<lparr>hr_headers := mput k v (hr_headers req)\<rparr>"

definition signature_lines :: "http_req \<Rightarrow> string \<Rightarrow> string list" where
  "signature_lines req params =
     [dquote ''@method'' @ '': '' @ hr_method req,
      dquote ''@authority'' @ '': '' @ hr_host req,
      dquote ''@path'' @ '': '' @ hr_path req,
      dquote ''content-type'' @ '': '' @ header req ''Content-Type'',
      dquote ''content-digest'' @ '': '' @ header req ''Content-Digest'',
      dquote ''tunnet-public-key'' @ '': '' @ header req ''Tunnet-Public-Key'',
      dquote ''tunnet-response-key'' @ '': '' @ header req ''Tunnet-Response-Key'',
      dquote ''@signature-params'' @ '': '' @ params]"

definition signature_base :: "http_req \<Rightarrow> string \<Rightarrow> string" where
  "signature_base req params = join [CHR 0x0A] (signature_lines req params)"

text \<open>\<open>http.NewRequestWithContext\<close>: the URL must parse.\<close>

definition new_request :: "client_env \<Rightarrow> string \<Rightarrow> string \<Rightarrow> http_req result" where
  "new_request env url body =
     rbind (ce_url env url) (\<lambda>u.
       Inr \<lparr>hr_method = ''POST'', hr_url = url, hr_host = url_host u, hr_path = url_path u,
            hr_headers = [], hr_body = body\<rparr>)"

definition content_digest :: "client_env \<Rightarrow> string \<Rightarrow> string" where
  "content_digest env body = ''sha-256=:'' @ b64_encode StdEncoding (ce_sha256 env body) @ '':''"

definition signed_request :: "client_env \<Rightarrow> client \<Rightarrow> exchange \<Rightarrow> string \<Rightarrow> int \<Rightarrow> http_req result" where
  "signed_request env cl ex body now =
     rbind (new_request env (cl_endpoint cl) body) (\<lambda>req.
       let req = set_header ''Content-Type'' ''application/json'' req;
           req = set_header ''Accept'' ''application/vnd.tunnet.hpke, application/json'' req;
           req = set_header ''Tunnet-Public-Key'' (public_key (cl_identity cl)) req;
           req = set_header ''Tunnet-Response-Key'' (ex_pub ex) req;
           req = set_header ''Content-Digest'' (content_digest env body) req;
           params = signature_params (id_client (cl_identity cl)) ex now;
           sig = ce_sign env (id_key (cl_identity cl)) (signature_base req params);
           req = set_header ''Signature-Input'' (''tn='' @ params) req
       in Inr (set_header ''Signature'' (''tn=:'' @ b64_encode StdEncoding sig @ '':'') req))"

section \<open>Responses\<close>

definition report_tls_once :: "client \<Rightarrow> http_resp \<Rightarrow> world \<Rightarrow> world" where
  "report_tls_once cl resp w =
     (if w_tls_reported w then w
      else let w1 = w\<lparr>w_tls_reported := True\<rparr>
           in case rs_tls resp of
                None \<Rightarrow> w1
              | Some accepted \<Rightarrow>
                  if \<not> cl_expect_ech cl then w1
                  else if accepted then
                    logf ''control TLS: ECH accepted, hostname hidden from the handshake'' [] w1
                  else logf ''control TLS: ECH not in effect, the hostname is visible in the handshake'' [] w1)"

definition truncate_text :: "string \<Rightarrow> nat \<Rightarrow> string" where
  "truncate_text b n = (let s = trim_space b
     in if length s > n then take n s @ [CHR 0xE2, CHR 0x80, CHR 0xA6] else s)"

definition open_info :: "string \<Rightarrow> string \<Rightarrow> string \<Rightarrow> string" where
  "open_info op client_id nonce =
     ''TunNet/client-response/v1'' @ [CHR 0x00] @ op @ [CHR 0x00] @ client_id @ [CHR 0x00] @ nonce"

definition open_response :: "client_env \<Rightarrow> client \<Rightarrow> exchange \<Rightarrow> string \<Rightarrow> string result" where
  "open_response env cl ex ciphertext =
     ce_hpke_open env (ex_key ex)
       (open_info (ex_operation ex) (id_client (cl_identity cl)) (ex_nonce_raw ex)) ciphertext"

definition read_response :: "client_env \<Rightarrow> client \<Rightarrow> exchange \<Rightarrow> http_resp \<Rightarrow> string result" where
  "read_response env cl ex resp =
     rbind (rwrap (\<lambda>e. Errorf ''%s: %w'' [AStr (ex_operation ex), AErr e]) (rs_body resp)) (\<lambda>body.
     let payload = take (8 * 2 ^ 20) body in
     rbind (rcheck (has_prefix (rs_content_type resp) ''application/vnd.tunnet.hpke'')
              (Errorf ''%s rejected (%s): %s''
                 [AStr (ex_operation ex), AStr (rs_status resp), AStr (truncate_text payload 512)])) (\<lambda>_.
     rwrap (\<lambda>e. Errorf ''%s: decrypt response: %w'' [AStr (ex_operation ex), AErr e])
       (open_response env cl ex payload)))"

definition call :: "client_env \<Rightarrow> client \<Rightarrow> string \<Rightarrow> string \<Rightarrow> world \<Rightarrow> string result \<times> world" where
  "call env cl op body w =
     wbind (new_exchange env op w) (\<lambda>ex w.
     wbind (signed_request env cl ex body (ce_now env (w_exchanges w)), w) (\<lambda>req w.
     wbind (apfst (rwrap (\<lambda>e. Errorf ''%s: %w'' [AStr op, AErr e])) (http_do env req w)) (\<lambda>resp w.
     (read_response env cl ex resp, report_tls_once cl resp w))))"
section \<open>The three operations\<close>

record bootstrap_access =
  ba_state :: string
  ba_ticket :: string
  ba_retry :: int

record bootstrap_result =
  boot_state :: string
  boot_ticket :: string
  boot_retry_after :: int
  boot_raw :: string

definition access_field :: "bootstrap_access field_decoder" where
  "access_field cur key j =
     (if key_is ''state'' key then field_into dec_string ba_state (\<lambda>v. ba_state_update (\<lambda>_. v)) cur j
      else if key_is ''ticket'' key then field_into dec_string ba_ticket (\<lambda>v. ba_ticket_update (\<lambda>_. v)) cur j
      else if key_is ''retry_after_seconds'' key then
        field_into dec_int ba_retry (\<lambda>v. ba_retry_update (\<lambda>_. v)) cur j
      else (cur, True))"

definition bootstrap_field :: "bootstrap_access field_decoder" where
  "bootstrap_field cur key j =
     (if key_is ''access'' key then dec_struct access_field cur j else (cur, True))"

definition parse_bootstrap :: "string \<Rightarrow> bootstrap_result result" where
  "parse_bootstrap plain =
     rbind (rwrap (\<lambda>e. Errorf ''parse bootstrap response: %w'' [AErr e])
              (unmarshal (dec_struct bootstrap_field) \<lparr>ba_state = [], ba_ticket = [], ba_retry = 0\<rparr> plain)) (\<lambda>p.
       Inr \<lparr>boot_state = ba_state p, boot_ticket = ba_ticket p,
            boot_retry_after = wrap64 (ba_retry p * 1000000000), boot_raw = plain\<rparr>)"

definition bootstrap :: "client_env \<Rightarrow> client \<Rightarrow> world \<Rightarrow> bootstrap_result result \<times> world" where
  "bootstrap env cl w =
     wbind (call env cl ''bootstrap'' (identity_request cl) w) (\<lambda>plain w.
     (parse_bootstrap plain, w))"

definition access :: "client_env \<Rightarrow> client \<Rightarrow> string \<Rightarrow> world \<Rightarrow> string result \<times> world" where
  "access env cl ticket w = call env cl ''access'' (ticket_request cl ticket) w"

definition sync :: "client_env \<Rightarrow> client \<Rightarrow> world \<Rightarrow> string result \<times> world" where
  "sync env cl w = call env cl ''sync'' (identity_request cl) w"

section \<open>Approving a ticket\<close>

definition host_char :: "char \<Rightarrow> bool" where
  "host_char c \<longleftrightarrow> CHR ''A'' \<le> c \<and> c \<le> CHR ''Z'' \<or> CHR ''a'' \<le> c \<and> c \<le> CHR ''z''
     \<or> CHR ''0'' \<le> c \<and> c \<le> CHR ''9'' \<or> c = CHR ''.'' \<or> c = CHR ''-''"

definition link_char :: "char \<Rightarrow> bool" where
  "link_char c \<longleftrightarrow> c \<notin> {CHR 0x09, CHR 0x0A, CHR 0x0C, CHR 0x0D, CHR 0x20, CHR 0x22, CHR 0x27}"

text \<open>
  \<open>urlPattern\<close> at the start of a text: the scheme, at least one host character, and, when a
  slash follows, everything up to white space or a quote.
\<close>

definition url_match :: "string \<Rightarrow> string option" where
  "url_match s =
     (if \<not> has_prefix s ''https://'' then None
      else let r = drop 8 s; h = takeWhile host_char r; t = dropWhile host_char r
           in if h = [] then None
              else Some (''https://'' @ h @
                (if t \<noteq> [] \<and> hd t = CHR ''/'' then CHR ''/'' # takeWhile link_char (tl t) else [])))"

function find_urls :: "string \<Rightarrow> string list" where
  "find_urls s =
     (case s of
        [] \<Rightarrow> []
      | _ # t \<Rightarrow> (case url_match s of None \<Rightarrow> find_urls t | Some m \<Rightarrow> m # find_urls (drop (length m) s)))"
  by pat_completeness auto
termination
  by (relation "measure length") (auto simp: url_match_def Let_def split: if_splits)

declare find_urls.simps [simp del]

definition trim_right_set :: "string \<Rightarrow> string \<Rightarrow> string" where
  "trim_right_set s cutset = rev (dropWhile (\<lambda>c. c \<in> set cutset) (rev s))"

fun first_access_url :: "client_env \<Rightarrow> string list \<Rightarrow> string" where
  "first_access_url env [] = []"
| "first_access_url env (candidate # cs) =
     (case ce_url env (trim_right_set candidate [CHR 0x22, CHR '','']) of
        Inl _ \<Rightarrow> first_access_url env cs
      | Inr u \<Rightarrow> if has_prefix (url_host u) ''access.'' then url_text u else first_access_url env cs)"

definition verification_url :: "client_env \<Rightarrow> string \<Rightarrow> string" where
  "verification_url env payload = first_access_url env (find_urls payload)"

definition origin_of :: "client_env \<Rightarrow> string \<Rightarrow> string result" where
  "origin_of env raw =
     (if raw = [] then Inl (Errorf ''no verification URL available; pass one explicitly'' [])
      else case ce_url env raw of
             Inl e \<Rightarrow> Inl (Errorf ''bad verification URL %q: %w'' [AStr raw, AErr e])
           | Inr u \<Rightarrow>
               if url_scheme u \<noteq> ''https'' \<or> url_host u = [] then
                 Inl (Errorf ''bad verification URL %q'' [AStr raw])
               else Inr (''https://'' @ url_host u))"

text \<open>
  The body of a refusal is read with one \<open>Read\<close> of at most 2048 bytes; what it returned is
  only part of the error text.
\<close>

definition authorize :: "client_env \<Rightarrow> string \<Rightarrow> string \<Rightarrow> world \<Rightarrow> unit result \<times> world" where
  "authorize env vurl ticket w =
     wbind (origin_of env vurl, w) (\<lambda>origin w.
     wbind (new_request env (origin @ ''/api/v1/access/authorize'') (marshal_strings [(''ticket'', ticket)]), w) (\<lambda>req w.
     let req = set_header ''Accept'' ''application/json'' req;
         req = set_header ''Content-Type'' ''application/json'' req;
         req = set_header ''Origin'' origin req;
         req = set_header ''Sec-Fetch-Mode'' ''cors'' req;
         req = set_header ''Sec-Fetch-Site'' ''same-origin'' req
     in wbind (apfst (rwrap (\<lambda>e. Errorf ''authorize: %w'' [AErr e])) (http_do env req w)) (\<lambda>resp w.
        let payload = (case rs_body resp of Inl _ \<Rightarrow> [] | Inr b \<Rightarrow> take 2048 b)
        in if rs_code resp \<noteq> 200 then
             (Inl (Errorf ''authorize rejected (%s): %s'' [AStr (rs_status resp), AStr (truncate_text payload 512)]), w)
           else (Inr (), w))))"

section \<open>What a call does\<close>

lemma http_do_sent: "http_do env req w = (r, w') \<Longrightarrow> w_sent w' = w_sent w @ [req]"
  by (auto simp: http_do_def)

lemma report_tls_once_kept [simp]:
  "w_sent (report_tls_once cl resp w) = w_sent w" "w_fs (report_tls_once cl resp w) = w_fs w"
  by (auto simp: report_tls_once_def Let_def logf_def split: option.split)

lemma new_exchange_world:
  "new_exchange env op w = (r, w') \<Longrightarrow> w_sent w' = w_sent w \<and> w_fs w' = w_fs w \<and> w_exchanges w' = Suc (w_exchanges w)"
  by (auto simp: new_exchange_def Let_def)

lemma set_header_simps [simp]:
  "hr_method (set_header k v req) = hr_method req" "hr_url (set_header k v req) = hr_url req"
  "hr_host (set_header k v req) = hr_host req" "hr_path (set_header k v req) = hr_path req"
  "hr_body (set_header k v req) = hr_body req"
  "header (set_header k v req) k' = (if k = k' then v else header req k')"
  by (simp_all add: set_header_def header_def)

text \<open>The base that is signed does not depend on the headers added after it.\<close>

lemma signature_base_set_header [simp]:
  "k \<noteq> ''Content-Type'' \<Longrightarrow> k \<noteq> ''Content-Digest'' \<Longrightarrow> k \<noteq> ''Tunnet-Public-Key'' \<Longrightarrow>
   k \<noteq> ''Tunnet-Response-Key'' \<Longrightarrow> signature_base (set_header k v req) params = signature_base req params"
  by (simp add: signature_base_def signature_lines_def)

lemma signed_request_spec:
  assumes "signed_request env cl ex body now = Inr req"
  shows "hr_method req = ''POST''" "hr_url req = cl_endpoint cl" "hr_body req = body"
    "header req ''Content-Digest'' = content_digest env body"
    "header req ''Tunnet-Response-Key'' = ex_pub ex"
    "header req ''Tunnet-Public-Key'' = public_key (cl_identity cl)"
    "header req ''Signature-Input'' = ''tn='' @ signature_params (id_client (cl_identity cl)) ex now"
    "header req ''Signature'' = ''tn=:'' @ b64_encode StdEncoding
        (ce_sign env (id_key (cl_identity cl))
          (signature_base req (signature_params (id_client (cl_identity cl)) ex now))) @ '':''"
  using assms by (auto simp: signed_request_def new_request_def Let_def res_simps)

text \<open>Which operation a request belongs to: the tag it signed, or the URL that approves a ticket.\<close>

definition is_op :: "string \<Rightarrow> http_req \<Rightarrow> bool" where
  "is_op op req \<longleftrightarrow>
     (if op = ''authorize'' then \<exists>h. hr_url req = ''https://'' @ h @ ''/api/v1/access/authorize''
      else \<exists>c ex t. header req ''Signature-Input'' = ''tn='' @ signature_params c ex t \<and> ex_operation ex = op)"

lemma call_world:
  "call env cl op body w = (r, w') \<Longrightarrow>
   w_fs w' = w_fs w \<and> (w_sent w' = w_sent w \<or>
     (\<exists>req. w_sent w' = w_sent w @ [req] \<and> hr_url req = cl_endpoint cl \<and> hr_body req = body
        \<and> (op \<noteq> ''authorize'' \<longrightarrow> is_op op req)))"
proof -
  assume *: "call env cl op body w = (r, w')"
  obtain r1 w1 where 1: "new_exchange env op w = (r1, w1)" by (metis surj_pair)
  note n = new_exchange_world [OF 1]
  show ?thesis
  proof (cases r1)
    case (Inl e)
    then show ?thesis using * 1 n by (simp add: call_def)
  next
    case ex: (Inr ex)
    show ?thesis
    proof (cases "signed_request env cl ex body (ce_now env (w_exchanges w1))")
      case (Inl e)
      then show ?thesis using * 1 n ex by (simp add: call_def)
    next
      case (Inr req)
      with * 1 ex have "w_fs w' = w_fs w1 \<and> w_sent w' = w_sent w1 @ [req]"
        by (auto simp: call_def http_do_def apfst_def map_prod_def rwrap_def wbind_def split: sum.splits prod.splits)
      moreover have "ex_operation ex = op"
        using 1 ex by (auto simp: new_exchange_def Let_def res_simps)
      ultimately show ?thesis
        using n signed_request_spec(2,3,7) [OF Inr] by (auto simp: is_op_def)
    qed
  qed
qed

text \<open>
  C2: When a call returns a plaintext, exactly one request was sent: a POST of the body to the
  endpoint whose digest header is the digest of that body and whose signature, by the
  identity's key, covers method, authority, path, digest and both keys; and the plaintext is
  what HPKE opened with this exchange's own key, bound to operation, client id and nonce, from a
  response of the sealed media type. No file changes.
\<close>

lemma call_sealed:
  assumes "call env cl op body w = (Inr plain, w')"
  shows "\<exists>ex req resp payload. fst (new_exchange env op w) = Inr ex
    \<and> w_sent w' = w_sent w @ [req] \<and> w_fs w' = w_fs w
    \<and> hr_method req = ''POST'' \<and> hr_url req = cl_endpoint cl \<and> hr_body req = body
    \<and> header req ''Content-Digest'' = content_digest env body
    \<and> header req ''Tunnet-Response-Key'' = ex_pub ex
    \<and> header req ''Signature'' = ''tn=:'' @ b64_encode StdEncoding (ce_sign env (id_key (cl_identity cl))
         (signature_base req (signature_params (id_client (cl_identity cl)) ex (ce_now env (Suc (w_exchanges w)))))) @ '':''
    \<and> ce_http env (w_sent w) req = Inr resp \<and> has_prefix (rs_content_type resp) ''application/vnd.tunnet.hpke''
    \<and> rs_body resp = Inr payload
    \<and> ce_hpke_open env (ex_key ex) (open_info op (id_client (cl_identity cl)) (ex_nonce_raw ex))
         (take (8 * 2 ^ 20) payload) = Inr plain"
proof -
  obtain ex w1 req resp w2 where 1: "new_exchange env op w = (Inr ex, w1)"
    and 2: "signed_request env cl ex body (ce_now env (w_exchanges w1)) = Inr req"
    and 3: "http_do env req w1 = (Inr resp, w2)"
    and 4: "read_response env cl ex resp = Inr plain" "w' = report_tls_once cl resp w2"
    using assms by (auto simp: call_def res_simps apfst_def map_prod_def rwrap_def wbind_def
        split: sum.splits prod.splits)
  note n = new_exchange_world [OF 1]
  have op: "ex_operation ex = op" using 1 by (auto simp: new_exchange_def Let_def res_simps)
  obtain payload where 5: "rs_body resp = Inr payload"
      "has_prefix (rs_content_type resp) ''application/vnd.tunnet.hpke''"
      "open_response env cl ex (take (8 * 2 ^ 20) payload) = Inr plain"
    using 4(1) by (auto simp: read_response_def res_simps Let_def)
  have 6: "ce_http env (w_sent w) req = Inr resp" "w_sent w' = w_sent w @ [req]" "w_fs w' = w_fs w"
    using 3 4(2) n by (auto simp: http_do_def)
  show ?thesis
    using 1 5 6 n op signed_request_spec [OF 2] unfolding open_response_def
    by (intro exI [of _ ex] exI [of _ req] exI [of _ resp] exI [of _ payload]) auto
qed

section \<open>What a response and a signature are bound to\<close>

lemma append_sep_eq:
  assumes "a @ d # x = b @ d # y" "d \<notin> set a" "d \<notin> set b"
  shows "a = b \<and> x = y"
proof -
  have "takeWhile (\<lambda>c. c \<noteq> d) (a @ d # x) = a" "takeWhile (\<lambda>c. c \<noteq> d) (b @ d # y) = b"
    using assms(2,3) by (auto simp: takeWhile_append)
  then have "a = b" using assms(1) by metis
  with assms(1) show ?thesis by simp
qed

text \<open>
  The info string of a sealed response determines the operation, the client id and the
  16-byte nonce, so a response sealed for one call does not open in another one.
\<close>

lemma open_info_binds:
  assumes "open_info op c n = open_info op' c' n'"
    and "CHR 0x00 \<notin> set op" "CHR 0x00 \<notin> set op'" "length n = 16" "length n' = 16"
  shows "op = op' \<and> c = c' \<and> n = n'"
proof -
  have "op @ CHR 0x00 # (c @ CHR 0x00 # n) = op' @ CHR 0x00 # (c' @ CHR 0x00 # n')"
    using assms(1) by (simp add: open_info_def)
  then have "op = op' \<and> c @ CHR 0x00 # n = c' @ CHR 0x00 # n'"
    using assms(2,3) by (rule append_sep_eq)
  moreover have "length (CHR 0x00 # n) = length (CHR 0x00 # n')" using assms(4,5) by simp
  ultimately show ?thesis by (simp add: append_eq_append_conv)
qed

lemma open_info_binds_witness:
  "open_info ''sync'' ''id'' (replicate 16 CHR 0x01) \<noteq> open_info ''access'' ''id'' (replicate 16 CHR 0x01)"
  using open_info_binds [of "''sync''" "''id''" "replicate 16 CHR 0x01" "''access''" "''id''" "replicate 16 CHR 0x01"]
  by auto

definition clean :: "string \<Rightarrow> bool" where
  "clean s \<longleftrightarrow> CHR 0x0A \<notin> set s \<and> CHR 0x22 \<notin> set s"

definition clean_request :: "http_req \<Rightarrow> bool" where
  "clean_request req \<longleftrightarrow> clean (hr_method req) \<and> clean (hr_host req) \<and> clean (hr_path req)
     \<and> (\<forall>k \<in> {''Content-Type'', ''Content-Digest'', ''Tunnet-Public-Key'', ''Tunnet-Response-Key''}.
          clean (header req k))"

lemma split_join: "ws \<noteq> [] \<Longrightarrow> \<forall>w \<in> set ws. d \<notin> set w \<Longrightarrow> split_on d (join [d] ws) = ws"
proof (induction ws)
  case (Cons w ws)
  then show ?case
    by (cases "ws = []") (simp_all add: split_on_absent join_Cons split_on_append)
qed simp

lemma itoa_digits: "c \<in> set (itoa i) \<Longrightarrow> is_digit c \<or> c = CHR ''-''"
  using nat_text_digits by (auto simp: itoa_def list_all_iff split: if_splits)

lemma itoa_plain [simp]: "CHR '';'' \<notin> set (itoa i)" "CHR 0x0A \<notin> set (itoa i)" "CHR 0x22 \<notin> set (itoa i)"
  by (auto dest!: itoa_digits simp: is_digit_iff)

lemma dquote_clean: "clean s \<Longrightarrow> CHR 0x0A \<notin> set (dquote s)"
  by (simp add: dquote_def clean_def)

lemma signed_components_plain: "CHR 0x0A \<notin> set signed_components"
  by code_simp

lemma itoa_inject: "in64 i \<Longrightarrow> in64 j \<Longrightarrow> itoa i = itoa j \<Longrightarrow> i = j"
  using atoi_itoa by (metis option.inject)

lemma signature_params_binds:
  assumes "signature_params c ex t = signature_params c' ex' t'" "in64 t" "in64 t'"
    and "clean c" "clean c'" "clean (ex_nonce ex)" "clean (ex_nonce ex')"
  shows "c = c' \<and> t = t' \<and> ex_nonce ex = ex_nonce ex' \<and> ex_operation ex = ex_operation ex'"
proof -
  let ?tail = "\<lambda>c ex t. ''expires='' @ itoa (wrap64 (t + 120))
       @ '';keyid='' @ dquote c @ '';alg='' @ dquote ''ed25519''
       @ '';nonce='' @ dquote (ex_nonce ex)
       @ '';tag='' @ dquote (ex_operation ex @ '':'' @ ''tunnet-client-v1'')"
  have "itoa t @ CHR '';'' # ?tail c ex t = itoa t' @ CHR '';'' # ?tail c' ex' t'"
    using assms(1) by (simp add: signature_params_def)
  from append_sep_eq [OF this] have "itoa t = itoa t'" "?tail c ex t = ?tail c' ex' t'" by auto
  then have t: "t = t'" and "?tail c ex t = ?tail c' ex' t" using itoa_inject assms(2,3) by auto
  let ?tail2 = "\<lambda>ex. '';alg='' @ dquote ''ed25519''
       @ '';nonce='' @ dquote (ex_nonce ex)
       @ '';tag='' @ dquote (ex_operation ex @ '':'' @ ''tunnet-client-v1'')"
  have "c @ CHR 0x22 # ?tail2 ex = c' @ CHR 0x22 # ?tail2 ex'"
    using \<open>?tail c ex t = ?tail c' ex' t\<close> by (simp add: dquote_def)
  from append_sep_eq [OF this] have c: "c = c'" and "?tail2 ex = ?tail2 ex'"
    using assms(4,5) by (auto simp: clean_def)
  then have "ex_nonce ex @ CHR 0x22 # ('';tag='' @ dquote (ex_operation ex @ '':'' @ ''tunnet-client-v1''))
      = ex_nonce ex' @ CHR 0x22 # ('';tag='' @ dquote (ex_operation ex' @ '':'' @ ''tunnet-client-v1''))"
    by (simp add: dquote_def)
  from append_sep_eq [OF this] have "ex_nonce ex = ex_nonce ex'" "ex_operation ex = ex_operation ex'"
    using assms(6,7) by (auto simp: clean_def dquote_def)
  with t c show ?thesis by simp
qed

lemma signature_lines_plain:
  assumes "clean_request req" "clean c" "clean (ex_nonce ex)" "clean (ex_operation ex)"
  shows "\<forall>w \<in> set (signature_lines req (signature_params c ex t)). CHR 0x0A \<notin> set w"
proof -
  have "CHR 0x0A \<notin> set (signature_params c ex t)"
    using assms signed_components_plain by (simp add: signature_params_def dquote_def clean_def)
  then show ?thesis
    using assms(1) by (simp add: signature_lines_def clean_request_def clean_def dquote_def)
qed

text \<open>
  What is signed determines the request: two signature bases are equal only for the same
  method, authority, path, content type, digest and keys, and the same client id, creation
  time, nonce and operation (no part has a line feed or a quote in it).
\<close>

lemma signature_binds:
  assumes "signature_base req (signature_params c ex t) = signature_base req' (signature_params c' ex' t')"
    and "clean_request req" "clean c" "clean (ex_nonce ex)" "clean (ex_operation ex)" "in64 t"
    and "clean_request req'" "clean c'" "clean (ex_nonce ex')" "clean (ex_operation ex')" "in64 t'"
  shows "hr_method req = hr_method req' \<and> hr_host req = hr_host req' \<and> hr_path req = hr_path req'
    \<and> header req ''Content-Type'' = header req' ''Content-Type''
    \<and> header req ''Content-Digest'' = header req' ''Content-Digest''
    \<and> header req ''Tunnet-Public-Key'' = header req' ''Tunnet-Public-Key''
    \<and> header req ''Tunnet-Response-Key'' = header req' ''Tunnet-Response-Key''
    \<and> c = c' \<and> t = t' \<and> ex_nonce ex = ex_nonce ex' \<and> ex_operation ex = ex_operation ex'"
proof -
  have ne: "signature_lines r p \<noteq> []" for r p by (simp add: signature_lines_def)
  have "signature_lines req (signature_params c ex t) = signature_lines req' (signature_params c' ex' t')"
    using assms(1) split_join [OF ne signature_lines_plain [OF assms(2-5), of t]]
      split_join [OF ne signature_lines_plain [OF assms(7-10), of t']]
    unfolding signature_base_def by metis
  moreover from this have "signature_params c ex t = signature_params c' ex' t'"
    by (simp add: signature_lines_def)
  from signature_params_binds [OF this assms(6,11,3,8,4,9)]
  have "c = c' \<and> t = t' \<and> ex_nonce ex = ex_nonce ex' \<and> ex_operation ex = ex_operation ex'" .
  ultimately show ?thesis by (simp add: signature_lines_def)
qed

definition toy_exchange :: "string \<Rightarrow> exchange" where
  "toy_exchange op = \<lparr>ex_operation = op, ex_nonce = ''n'', ex_nonce_raw = ''n'', ex_key = ''k'', ex_pub = ''p''\<rparr>"

definition toy_request :: http_req where
  "toy_request = \<lparr>hr_method = ''POST'', hr_url = ''https://h/p'', hr_host = ''h'', hr_path = ''/p'',
     hr_headers = [], hr_body = []\<rparr>"

lemma signature_binds_witness:
  "signature_base toy_request (signature_params ''id'' (toy_exchange ''sync'') 7)
     \<noteq> signature_base toy_request (signature_params ''id'' (toy_exchange ''access'') 7)"
proof -
  have "clean_request toy_request" "clean ''id''"
    by (simp_all add: clean_request_def toy_request_def clean_def header_def)
  with signature_binds [of toy_request "''id''" "toy_exchange ''sync''" 7
      toy_request "''id''" "toy_exchange ''access''" 7]
  show ?thesis by (auto simp: toy_exchange_def clean_def in64_def)
qed

section \<open>Where a ticket is approved\<close>

lemma url_match_form:
  assumes "url_match s = Some m"
  shows "prefix m s" "has_prefix m ''https://''" "8 < length m"
proof -
  let ?h = "takeWhile host_char (drop 8 s)" and ?t = "dropWhile host_char (drop 8 s)"
  let ?l = "if ?t \<noteq> [] \<and> hd ?t = CHR ''/'' then CHR ''/'' # takeWhile link_char (tl ?t) else []"
  have m: "m = ''https://'' @ ?h @ ?l" and p: "has_prefix s ''https://''" and h: "?h \<noteq> []"
    using assms by (auto simp: url_match_def Let_def split: if_splits)
  have "prefix ?l ?t"
    by (cases ?t) (auto simp: takeWhile_is_prefix)
  moreover have "drop 8 s = ?h @ ?t" by simp
  ultimately have "prefix (?h @ ?l) (drop 8 s)" by (metis same_prefix_prefix)
  moreover have "s = ''https://'' @ drop 8 s"
    using p by (auto simp: has_prefix_iff prefix_def)
  ultimately show "prefix m s" unfolding m by (metis same_prefix_prefix)
  show "has_prefix m ''https://''" unfolding m by (rule has_prefix_append)
  show "8 < length m" unfolding m using h by simp
qed

lemma find_urls_form: "m \<in> set (find_urls s) \<Longrightarrow> sublist m s \<and> has_prefix m ''https://''"
proof (induction s rule: find_urls.induct)
  case (1 s)
  show ?case
  proof (cases s)
    case Nil
    with 1(3) show ?thesis by (simp add: find_urls.simps)
  next
    case (Cons c t)
    show ?thesis
    proof (cases "url_match s")
      case None
      with 1(1,3) Cons show ?thesis
        by (subst (asm) find_urls.simps) (auto simp: sublist_Cons_right)
    next
      case (Some m')
      then have "m = m' \<or> m \<in> set (find_urls (drop (length m') s))"
        using 1(3) Cons by (subst (asm) find_urls.simps) auto
      then show ?thesis
        using 1(2) [OF Cons Some] url_match_form [OF Some]
        by (auto intro: sublist_order.order.trans [OF _ sublist_drop] prefix_imp_sublist)
    qed
  qed
qed

lemma first_access_url_cases:
  obtains "first_access_url env cs = []"
  | c u where "c \<in> set cs" "ce_url env (trim_right_set c [CHR 0x22, CHR '','']) = Inr u"
      "has_prefix (url_host u) ''access.''" "first_access_url env cs = url_text u"
proof -
  have "first_access_url env cs = [] \<or> (\<exists>c \<in> set cs. \<exists>u.
      ce_url env (trim_right_set c [CHR 0x22, CHR '','']) = Inr u \<and>
      has_prefix (url_host u) ''access.'' \<and> first_access_url env cs = url_text u)"
    by (induction cs) (auto split: sum.splits)
  with that show ?thesis by blast
qed

lemma origin_of_Inr:
  "origin_of env raw = Inr origin \<longleftrightarrow> (\<exists>u. raw \<noteq> [] \<and> ce_url env raw = Inr u \<and> url_scheme u = ''https''
     \<and> url_host u \<noteq> [] \<and> origin = ''https://'' @ url_host u)"
  by (auto simp: origin_of_def split: sum.splits)

lemma authorize_spec:
  assumes "authorize env vurl ticket w = (r, w')"
  shows "w_fs w' = w_fs w \<and> (w_sent w' = w_sent w \<and> r \<noteq> Inr () \<or>
    (\<exists>u req. vurl \<noteq> [] \<and> ce_url env vurl = Inr u \<and> url_scheme u = ''https'' \<and> url_host u \<noteq> []
       \<and> w_sent w' = w_sent w @ [req] \<and> hr_method req = ''POST''
       \<and> hr_url req = ''https://'' @ url_host u @ ''/api/v1/access/authorize''
       \<and> hr_body req = marshal_strings [(''ticket'', ticket)]
       \<and> (r = Inr () \<longrightarrow> (\<exists>resp. ce_http env (w_sent w) req = Inr resp \<and> rs_code resp = 200))))"
proof (cases "origin_of env vurl")
  case (Inl e)
  with assms show ?thesis by (auto simp: authorize_def)
next
  case (Inr origin)
  note origin = Inr [unfolded origin_of_Inr]
  show ?thesis
  proof (cases "new_request env (origin @ ''/api/v1/access/authorize'') (marshal_strings [(''ticket'', ticket)])")
    case (Inl e)
    with assms Inr show ?thesis by (auto simp: authorize_def)
  next
    case req: (Inr req)
    then have "hr_method req = ''POST''" "hr_url req = origin @ ''/api/v1/access/authorize''"
      "hr_body req = marshal_strings [(''ticket'', ticket)]"
      by (auto simp: new_request_def res_simps)
    with assms Inr req origin show ?thesis
      by (auto simp: authorize_def Let_def http_do_def wbind_def apfst_def map_prod_def rwrap_def
          split: sum.splits if_splits)
  qed
qed

text \<open>
  What auto-approval relies on of \<open>net/url\<close>: an https text parses to the scheme https, and the
  text of a parsed URL parses to the same scheme and host.
\<close>

definition url_laws :: "client_env \<Rightarrow> bool" where
  "url_laws env \<longleftrightarrow>
     (\<forall>s u. has_prefix s ''https:'' \<longrightarrow> ce_url env s = Inr u \<longrightarrow> url_scheme u = ''https'') \<and>
     (\<forall>s u u'. ce_url env s = Inr u \<longrightarrow> ce_url env (url_text u) = Inr u' \<longrightarrow>
        url_scheme u' = url_scheme u \<and> url_host u' = url_host u)"


section \<open>A concrete environment\<close>

text \<open>Used by the witnesses: hosts end at the first slash, nothing is really sealed.\<close>

definition toy_url :: "string \<Rightarrow> url result" where
  "toy_url s =
     (if has_prefix s ''https:'' then
        (let h = takeWhile (\<lambda>c. c \<noteq> CHR ''/'') (drop 8 s)
         in Inr \<lparr>url_scheme = ''https'', url_user = False, url_host = h, url_hostname = h,
                 url_path = drop (8 + length h) s, url_text = s\<rparr>)
      else Inl (ErrLib ''url.Parse'' s))"

definition toy_env :: "(http_req list \<Rightarrow> http_req \<Rightarrow> http_resp result) \<Rightarrow> client_env" where
  "toy_env srv = \<lparr>ce_random = (\<lambda>_. Inr (replicate 16 CHR 0x01)), ce_hpke_key = (\<lambda>_. Inr (''priv'', ''pub'')),
     ce_sha256 = (\<lambda>_. replicate 32 CHR 0x02), ce_sign = (\<lambda>_ m. take 64 m), ce_now = (\<lambda>k. 1000 + int k),
     ce_url = toy_url, ce_http = srv, ce_hpke_open = (\<lambda>_ _ c. Inr c)\<rparr>"

definition toy_world :: world where
  "toy_world = \<lparr>w_fs = plain_fs [], w_sent = [], w_exchanges = 0, w_log = [], w_tls_reported = False\<rparr>"

definition sealed :: "string \<Rightarrow> http_resp result" where
  "sealed body = Inr \<lparr>rs_code = 200, rs_status = ''200 OK'', rs_content_type = ''application/vnd.tunnet.hpke'',
     rs_tls = Some True, rs_body = Inr body\<rparr>"

lemma url_laws_toy: "url_laws (toy_env srv)"
  by (auto simp: url_laws_def toy_env_def toy_url_def Let_def split: if_splits)

lemma toy_call:
  assumes "\<And>req. hr_body req = body \<Longrightarrow> srv (w_sent w) req = sealed plain" "length plain \<le> 8 * 2 ^ 20"
    "has_prefix (cl_endpoint cl) ''https:''"
  shows "fst (call (toy_env srv) cl op body w) = Inr plain"
    "length (w_sent (snd (call (toy_env srv) cl op body w))) = Suc (length (w_sent w))"
proof -
  let ?env = "toy_env srv"
  obtain ex w1 where 1: "new_exchange ?env op w = (Inr ex, w1)" "w_sent w1 = w_sent w"
    by (auto simp: new_exchange_def toy_env_def Let_def)
  obtain req where 2: "signed_request ?env cl ex body (ce_now ?env (w_exchanges w1)) = Inr req"
    using assms(3) by (auto simp: signed_request_def new_request_def toy_env_def toy_url_def Let_def)
  have "http_do ?env req w1 = (sealed plain, w1\<lparr>w_sent := w_sent w1 @ [req]\<rparr>)"
    using assms(1) [OF signed_request_spec(3) [OF 2]] 1(2) by (simp add: http_do_def toy_env_def)
  moreover have "has_prefix ''application/vnd.tunnet.hpke'' ''application/vnd.tunnet.hpke''"
    by (simp add: has_prefix_iff)
  ultimately have c: "call ?env cl op body w
      = (Inr plain, report_tls_once cl (projr (sealed plain)) (w1\<lparr>w_sent := w_sent w1 @ [req]\<rparr>))"
    using 1 2 assms(2)
    by (simp add: call_def sealed_def read_response_def Let_def open_response_def) (simp add: toy_env_def)
  show "fst (call ?env cl op body w) = Inr plain" using c by simp
  show "length (w_sent (snd (call ?env cl op body w))) = Suc (length (w_sent w))" using c 1(2) by simp
qed

lemma call_sealed_witness:
  "\<exists>req w'. w_sent (w' :: world) = [req] \<and> hr_url req = ''https://client-api.nexttun.net/api/v1/client''
     \<and> fst (call (toy_env (\<lambda>_ _. sealed ''x'')) (new_client sample_identity) ''sync'' ''{}'' toy_world) = Inr ''x''"
proof -
  let ?env = "toy_env (\<lambda>_ _. sealed ''x'')" and ?cl = "new_client sample_identity"
  have ep: "cl_endpoint ?cl = ''https://client-api.nexttun.net/api/v1/client''" by (simp add: new_client_def)
  have r: "fst (call ?env ?cl ''sync'' ''{}'' toy_world) = Inr ''x''"
    by (rule toy_call) (simp_all add: new_client_def has_prefix_def)
  then obtain w' where "call ?env ?cl ''sync'' ''{}'' toy_world = (Inr ''x'', w')"
    by (metis prod.collapse)
  from call_sealed [OF this] obtain req where "w_sent w' = w_sent toy_world @ [req]" "hr_url req = cl_endpoint ?cl"
    by blast
  with r ep show ?thesis by (auto simp: toy_world_def)
qed


end
