(* ===== verification/Directory.thy ===== *)
theory Directory
  imports StoredDoc
begin

text \<open>
  \<open>internal/control/directory.go\<close>: the directory the control plane returns, in the two
  envelopes it uses, and its conversion to an inventory.
\<close>

section \<open>Data\<close>

text \<open>The front proxy of an entry node is an anonymous struct with the fields of \<open>FrontProxy\<close>.\<close>

record entry_node =
  en_name :: string
  en_ipv4 :: "string list"
  en_front :: "front_proxy option"

record rt_host =
  rh_name :: string
  rh_slug :: string
  rh_online :: bool
  rh_key :: string

record network =
  net_root_domains :: "string list"

record runtime_payload =
  rt_client_id :: string
  rt_entry_nodes :: "entry_node list"
  rt_hosts :: "rt_host list"
  rt_network :: network

record boot_section =
  bs_runtime :: "runtime_payload option"

record directory =
  dir_runtime :: "runtime_payload option"
  dir_bootstrap :: "boot_section option"

definition zero_node :: entry_node where
  "zero_node = \<lparr>en_name = [], en_ipv4 = [], en_front = None\<rparr>"

definition zero_rt_host :: rt_host where
  "zero_rt_host = \<lparr>rh_name = [], rh_slug = [], rh_online = False, rh_key = []\<rparr>"

definition zero_runtime :: runtime_payload where
  "zero_runtime = \<lparr>rt_client_id = [], rt_entry_nodes = [], rt_hosts = [],
     rt_network = \<lparr>net_root_domains = []\<rparr>\<rparr>"

definition zero_directory :: directory where
  "zero_directory = \<lparr>dir_runtime = None, dir_bootstrap = None\<rparr>"

section \<open>Decoding\<close>

definition node_field :: "entry_node field_decoder" where
  "node_field cur key j =
     (if key_is ''name'' key then field_into dec_string en_name (\<lambda>v. en_name_update (\<lambda>_. v)) cur j
      else if key_is ''ipv4'' key then
        field_into (dec_slice dec_string []) en_ipv4 (\<lambda>v. en_ipv4_update (\<lambda>_. v)) cur j
      else if key_is ''front_proxy'' key then
        field_into (dec_ptr (dec_struct front_field) zero_front) en_front (\<lambda>v. en_front_update (\<lambda>_. v)) cur j
      else (cur, True))"

definition rt_host_field :: "rt_host field_decoder" where
  "rt_host_field cur key j =
     (if key_is ''name'' key then field_into dec_string rh_name (\<lambda>v. rh_name_update (\<lambda>_. v)) cur j
      else if key_is ''slug'' key then field_into dec_string rh_slug (\<lambda>v. rh_slug_update (\<lambda>_. v)) cur j
      else if key_is ''online'' key then field_into dec_bool rh_online (\<lambda>v. rh_online_update (\<lambda>_. v)) cur j
      else if key_is ''vless_encryption_key'' key then
        field_into dec_string rh_key (\<lambda>v. rh_key_update (\<lambda>_. v)) cur j
      else (cur, True))"

definition network_field :: "network field_decoder" where
  "network_field cur key j =
     (if key_is ''root_domains'' key then
        field_into (dec_slice dec_string []) net_root_domains (\<lambda>v. net_root_domains_update (\<lambda>_. v)) cur j
      else (cur, True))"

definition runtime_field :: "runtime_payload field_decoder" where
  "runtime_field cur key j =
     (if key_is ''client_id'' key then field_into dec_string rt_client_id (\<lambda>v. rt_client_id_update (\<lambda>_. v)) cur j
      else if key_is ''entry_nodes'' key then
        field_into (dec_slice (dec_struct node_field) zero_node) rt_entry_nodes
          (\<lambda>v. rt_entry_nodes_update (\<lambda>_. v)) cur j
      else if key_is ''hosts'' key then
        field_into (dec_slice (dec_struct rt_host_field) zero_rt_host) rt_hosts (\<lambda>v. rt_hosts_update (\<lambda>_. v)) cur j
      else if key_is ''network'' key then
        field_into (dec_struct network_field) rt_network (\<lambda>v. rt_network_update (\<lambda>_. v)) cur j
      else (cur, True))"

definition boot_field :: "boot_section field_decoder" where
  "boot_field cur key j =
     (if key_is ''runtime'' key then
        field_into (dec_ptr (dec_struct runtime_field) zero_runtime) bs_runtime (\<lambda>v. bs_runtime_update (\<lambda>_. v)) cur j
      else (cur, True))"

definition directory_field :: "directory field_decoder" where
  "directory_field cur key j =
     (if key_is ''runtime'' key then
        field_into (dec_ptr (dec_struct runtime_field) zero_runtime) dir_runtime
          (\<lambda>v. dir_runtime_update (\<lambda>_. v)) cur j
      else if key_is ''bootstrap'' key then
        field_into (dec_ptr (dec_struct boot_field) \<lparr>bs_runtime = None\<rparr>) dir_bootstrap
          (\<lambda>v. dir_bootstrap_update (\<lambda>_. v)) cur j
      else (cur, True))"

section \<open>Operations\<close>

definition runtime_of :: "directory \<Rightarrow> runtime_payload option" where
  "runtime_of d =
     (case dir_bootstrap d of
        Some b \<Rightarrow> (case bs_runtime b of Some rt \<Rightarrow> Some rt | None \<Rightarrow> dir_runtime d)
      | None \<Rightarrow> dir_runtime d)"

definition host_of :: "rt_host \<Rightarrow> host" where
  "host_of h = \<lparr>host_slug = rh_slug h, host_name = rh_name h, host_key = rh_key h, host_online = rh_online h\<rparr>"

definition group_of :: "entry_node \<Rightarrow> entry_group" where
  "group_of e = \<lparr>group_name = en_name e, group_ipv4 = en_ipv4 e,
     group_front = map_option (\<lambda>f. \<lparr>front_endpoint = front_endpoint f, front_headers = front_headers f\<rparr>) (en_front e)\<rparr>"

definition parse_directory :: "string \<Rightarrow> inventory result" where
  "parse_directory payload =
     rbind (rwrap (\<lambda>e. Errorf ''parse directory: %w'' [AErr e])
              (unmarshal (dec_struct directory_field) zero_directory payload)) (\<lambda>d.
     case runtime_of d of
       None \<Rightarrow> Inl (Errorf ''directory contains no runtime section'' [])
     | Some rt \<Rightarrow>
         Inr \<lparr>inv_client_id = rt_client_id rt, inv_root_domains = net_root_domains (rt_network rt),
              inv_hosts = map host_of (rt_hosts rt), inv_entry_groups = map group_of (rt_entry_nodes rt)\<rparr>)"

definition parse_inventory :: "string \<Rightarrow> inventory result" where
  "parse_inventory payload =
     rbind (parse_directory payload) (\<lambda>iv.
     rbind (rwrap (\<lambda>e. Errorf ''directory is not usable: %w'' [AErr e]) (validate iv)) (\<lambda>_.
     Inr iv))"

section \<open>Both envelopes carry the same inventory\<close>

text \<open>The runtime section that carries an inventory, in the layout the control plane sends.\<close>

definition runtime_json :: "inventory \<Rightarrow> json" where
  "runtime_json iv = JObj
     [(''client_id'', JStr (inv_client_id iv)),
      (''entry_nodes'', enc_list group_json (inv_entry_groups iv)),
      (''hosts'', enc_list host_json (inv_hosts iv)),
      (''network'', JObj [(''root_domains'', enc_list JStr (inv_root_domains iv))])]"

definition sync_text :: "inventory \<Rightarrow> string" where
  "sync_text iv = marshal_indent (JObj [(''runtime'', runtime_json iv)])"

definition access_text :: "inventory \<Rightarrow> json \<Rightarrow> string" where
  "access_text iv other = marshal_indent
     (JObj [(''runtime'', other), (''bootstrap'', JObj [(''runtime'', runtime_json iv)])])"

definition node_of :: "entry_group \<Rightarrow> entry_node" where
  "node_of g = \<lparr>en_name = group_name g, en_ipv4 = group_ipv4 g, en_front = group_front g\<rparr>"

definition rt_host_of :: "host \<Rightarrow> rt_host" where
  "rt_host_of h = \<lparr>rh_name = host_name h, rh_slug = host_slug h, rh_online = host_online h, rh_key = host_key h\<rparr>"

definition payload_of :: "inventory \<Rightarrow> runtime_payload" where
  "payload_of iv = \<lparr>rt_client_id = inv_client_id iv, rt_entry_nodes = map node_of (inv_entry_groups iv),
     rt_hosts = map rt_host_of (inv_hosts iv), rt_network = \<lparr>net_root_domains = inv_root_domains iv\<rparr>\<rparr>"

lemma directory_keys [simp]:
  "\<not> key_is ''name'' ''slug''" "\<not> key_is ''online'' ''vless_encryption_key''"
  "\<not> key_is ''client_id'' ''entry_nodes''" "\<not> key_is ''client_id'' ''network''"
  "\<not> key_is ''entry_nodes'' ''hosts''" "\<not> key_is ''entry_nodes'' ''network''" "\<not> key_is ''hosts'' ''network''"
  "\<not> key_is ''runtime'' ''bootstrap''"
  by code_simp+

lemma valid_utf8_directory_keys [simp]:
  "valid_utf8 ''entry_nodes''" "valid_utf8 ''network''" "valid_utf8 ''runtime''" "valid_utf8 ''bootstrap''"
  by code_simp+

lemma dec_slice_onto:
  assumes "\<And>x. x \<in> set xs \<Longrightarrow> d z (e x) = (h x, True)"
  shows "dec_slice d z [] (enc_list e xs) = (map h xs, True)"
proof -
  have "dec_elems d z [] (map e xs) = (map h xs, True)"
    using assms by (induction xs) auto
  then show ?thesis by (simp add: enc_list_def dec_slice_def)
qed

lemma dec_node: "utf8_group g \<Longrightarrow> dec_struct node_field zero_node (group_json g) = (node_of g, True)"
  by (cases g) (auto simp: group_json_def node_field_def field_into_def zero_node_def node_of_def
      utf8_group_def dec_enc_list dec_ptr_fresh dec_front_json split: option.split)

lemma dec_rt_host: "dec_struct rt_host_field zero_rt_host (host_json h) = (rt_host_of h, True)"
  by (simp add: host_json_def rt_host_field_def field_into_def zero_rt_host_def rt_host_of_def)

lemma dec_runtime:
  "utf8_inventory iv \<Longrightarrow> dec_struct runtime_field zero_runtime (runtime_json iv) = (payload_of iv, True)"
  by (simp add: runtime_json_def runtime_field_def field_into_def zero_runtime_def payload_of_def
      utf8_inventory_def network_field_def dec_slice_onto [where h = node_of] dec_node
      dec_slice_onto [where h = rt_host_of] dec_rt_host dec_enc_list)

lemma of_payload:
  "map host_of (rt_hosts (payload_of iv)) = inv_hosts iv"
  "map group_of (rt_entry_nodes (payload_of iv)) = inv_entry_groups iv"
proof -
  have "host_of (rt_host_of h) = h" for h by (simp add: host_of_def rt_host_of_def)
  moreover have "group_of (node_of g) = g" for g
    by (cases "group_front g") (simp_all add: group_of_def node_of_def)
  ultimately show "map host_of (rt_hosts (payload_of iv)) = inv_hosts iv"
    "map group_of (rt_entry_nodes (payload_of iv)) = inv_entry_groups iv"
    by (simp_all add: payload_of_def map_idI)
qed

lemma runtime_json_good: "utf8_inventory iv \<Longrightarrow> json_good (runtime_json iv)"
  using json_good_inventory [of iv] by (simp add: inventory_json_def runtime_json_def)

lemma jdepth_runtime: "jdepth (runtime_json iv) \<le> 6"
proof -
  have "jdepth (enc_list JStr (inv_root_domains iv)) \<le> Suc 0"
    by (intro jdepth_enc_list) simp
  then show ?thesis
    using jdepth_inventory [of iv] by (simp add: inventory_json_def runtime_json_def)
qed

lemma dec_runtime_ptr:
  "utf8_inventory iv \<Longrightarrow>
   dec_ptr (dec_struct runtime_field) zero_runtime None (runtime_json iv) = (Some (payload_of iv), True)"
  by (intro dec_ptr_fresh dec_runtime) (simp add: runtime_json_def)

lemma parse_directory_of:
  assumes "json_good j" "jdepth j \<le> 10000" "dec_struct directory_field zero_directory j = (d, True)"
    and "runtime_of d = Some (payload_of iv)"
  shows "parse_directory (marshal_indent j) = Inr iv"
proof -
  have "unmarshal (dec_struct directory_field) zero_directory (marshal_indent j) = Inr d"
    using assms(1-3) by (simp add: unmarshal_def parse_marshal)
  with assms(4) show ?thesis
    unfolding parse_directory_def by (simp add: of_payload) (simp add: payload_of_def)
qed

lemma parse_sync_text:
  assumes "utf8_inventory iv"
  shows "parse_directory (sync_text iv) = Inr iv"
  unfolding sync_text_def using jdepth_runtime [of iv] assms
  by (intro parse_directory_of [where d = "zero_directory\<lparr>dir_runtime := Some (payload_of iv)\<rparr>"])
    (simp_all add: runtime_json_good directory_field_def field_into_def zero_directory_def
      dec_runtime_ptr runtime_of_def)

lemma parse_access_text:
  assumes "utf8_inventory iv" "utf8_inventory old"
  shows "parse_directory (access_text iv (runtime_json old)) = Inr iv"
  unfolding access_text_def using jdepth_runtime [of iv] jdepth_runtime [of old] assms
  by (intro parse_directory_of [where d = "\<lparr>dir_runtime = Some (payload_of old),
        dir_bootstrap = Some \<lparr>bs_runtime = Some (payload_of iv)\<rparr>\<rparr>"])
    (simp_all add: runtime_json_good directory_field_def boot_field_def field_into_def zero_directory_def
      dec_runtime_ptr runtime_of_def dec_ptr_fresh)

text \<open>
  C23: A sync response (runtime at the top) and an access response (runtime under bootstrap,
  which wins over one at the top) both give back the inventory they carry, and
  \<open>ParseInventory\<close> then accepts it exactly when it is valid.
\<close>

lemma directory_roundtrip:
  assumes "utf8_inventory iv" "utf8_inventory old"
  shows "parse_directory (sync_text iv) = Inr iv
    \<and> parse_directory (access_text iv (runtime_json old)) = Inr iv
    \<and> (parse_inventory (access_text iv (runtime_json old)) = Inr iv \<longleftrightarrow> validate iv = Inr ())"
  using parse_sync_text [OF assms(1)] parse_access_text [OF assms]
  by (auto simp: parse_inventory_def res_simps)

lemma parse_inventory_valid: "parse_inventory p = Inr iv \<Longrightarrow> validate iv = Inr ()"
  by (auto simp: parse_inventory_def res_simps)

lemma utf8_sample_inventory: "utf8_inventory sample_inventory"
proof -
  have "valid_utf8 ''192.0.2.1''" by code_simp
  then show ?thesis
    by (simp add: utf8_inventory_def sample_inventory_def utf8_host_def sample_host_def utf8_group_def)
qed

lemma directory_roundtrip_witness:
  "parse_inventory (access_text sample_inventory (runtime_json zero_inventory)) = Inr sample_inventory"
  using directory_roundtrip [OF utf8_sample_inventory, of zero_inventory] sample_valid
  by (simp add: utf8_inventory_def zero_inventory_def)

section \<open>What is parsed can be stored\<close>

definition utf8_node :: "entry_node \<Rightarrow> bool" where
  "utf8_node e \<longleftrightarrow> valid_utf8 (en_name e) \<and> (\<forall>a \<in> set (en_ipv4 e). valid_utf8 a) \<and>
     (\<forall>f. en_front e = Some f \<longrightarrow> utf8_front f)"

definition utf8_rt_host :: "rt_host \<Rightarrow> bool" where
  "utf8_rt_host h \<longleftrightarrow> valid_utf8 (rh_name h) \<and> valid_utf8 (rh_slug h) \<and> valid_utf8 (rh_key h)"

definition utf8_network :: "network \<Rightarrow> bool" where
  "utf8_network n \<longleftrightarrow> (\<forall>r \<in> set (net_root_domains n). valid_utf8 r)"

definition utf8_runtime :: "runtime_payload \<Rightarrow> bool" where
  "utf8_runtime rt \<longleftrightarrow> valid_utf8 (rt_client_id rt) \<and> (\<forall>e \<in> set (rt_entry_nodes rt). utf8_node e) \<and>
     (\<forall>h \<in> set (rt_hosts rt). utf8_rt_host h) \<and> utf8_network (rt_network rt)"

definition utf8_boot :: "boot_section \<Rightarrow> bool" where
  "utf8_boot b \<longleftrightarrow> (\<forall>rt. bs_runtime b = Some rt \<longrightarrow> utf8_runtime rt)"

definition utf8_directory :: "directory \<Rightarrow> bool" where
  "utf8_directory d \<longleftrightarrow> (\<forall>rt. dir_runtime d = Some rt \<longrightarrow> utf8_runtime rt) \<and>
     (\<forall>b. dir_bootstrap d = Some b \<longrightarrow> utf8_boot b)"

lemma utf8_zeros:
  "utf8_front zero_front" "utf8_node zero_node" "utf8_rt_host zero_rt_host" "utf8_runtime zero_runtime"
  "utf8_boot \<lparr>bs_runtime = None\<rparr>" "utf8_directory zero_directory"
  by (simp_all add: utf8_front_def zero_front_def utf8_node_def zero_node_def utf8_rt_host_def
      zero_rt_host_def utf8_runtime_def zero_runtime_def utf8_network_def utf8_boot_def
      utf8_directory_def zero_directory_def)

lemma keeps_node: "keeps utf8_node (dec_struct node_field)"
  by (rule keeps_structI, unfold node_field_def,
      intro fst_ifI [where P = utf8_node] keeps_into [OF keeps_string, where P = utf8_node]
        keeps_into [OF keeps_slice [OF keeps_string], where P = utf8_node]
        keeps_into [OF keeps_ptr [OF keeps_front utf8_zeros(1)], where P = utf8_node])
    (simp_all add: utf8_node_def)

lemma keeps_rt_host: "keeps utf8_rt_host (dec_struct rt_host_field)"
  by (rule keeps_structI, unfold rt_host_field_def,
      intro fst_ifI [where P = utf8_rt_host] keeps_into [OF keeps_string, where P = utf8_rt_host]
        keeps_into [OF keeps_any, where d = dec_bool and P = utf8_rt_host])
    (simp_all add: utf8_rt_host_def)

lemma keeps_network: "keeps utf8_network (dec_struct network_field)"
  by (rule keeps_structI, unfold network_field_def,
      intro fst_ifI [where P = utf8_network]
        keeps_into [OF keeps_slice [OF keeps_string], where P = utf8_network])
    (simp_all add: utf8_network_def)

lemma keeps_runtime: "keeps utf8_runtime (dec_struct runtime_field)"
  by (rule keeps_structI, unfold runtime_field_def,
      intro fst_ifI [where P = utf8_runtime] keeps_into [OF keeps_string, where P = utf8_runtime]
        keeps_into [OF keeps_slice [OF keeps_node utf8_zeros(2)], where P = utf8_runtime]
        keeps_into [OF keeps_slice [OF keeps_rt_host utf8_zeros(3)], where P = utf8_runtime]
        keeps_into [OF keeps_network, where P = utf8_runtime])
    (simp_all add: utf8_runtime_def)

lemma keeps_boot: "keeps utf8_boot (dec_struct boot_field)"
  by (rule keeps_structI, unfold boot_field_def,
      intro fst_ifI [where P = utf8_boot]
        keeps_into [OF keeps_ptr [OF keeps_runtime utf8_zeros(4)], where P = utf8_boot])
    (simp_all add: utf8_boot_def)

lemma keeps_directory: "keeps utf8_directory (dec_struct directory_field)"
  by (rule keeps_structI, unfold directory_field_def,
      intro fst_ifI [where P = utf8_directory]
        keeps_into [OF keeps_ptr [OF keeps_runtime utf8_zeros(4)], where P = utf8_directory]
        keeps_into [OF keeps_ptr [OF keeps_boot utf8_zeros(5)], where P = utf8_directory])
    (simp_all add: utf8_directory_def)

lemma runtime_of_utf8: "utf8_directory d \<Longrightarrow> runtime_of d = Some rt \<Longrightarrow> utf8_runtime rt"
  by (auto simp: runtime_of_def utf8_directory_def utf8_boot_def split: option.splits)

lemma parse_directory_utf8: "parse_directory payload = Inr iv \<Longrightarrow> utf8_inventory iv"
proof -
  assume "parse_directory payload = Inr iv"
  then obtain d rt where d: "unmarshal (dec_struct directory_field) zero_directory payload = Inr d"
    and rt: "runtime_of d = Some rt"
    and iv: "iv = \<lparr>inv_client_id = rt_client_id rt, inv_root_domains = net_root_domains (rt_network rt),
              inv_hosts = map host_of (rt_hosts rt), inv_entry_groups = map group_of (rt_entry_nodes rt)\<rparr>"
    by (auto simp: parse_directory_def res_simps split: option.splits)
  have "utf8_runtime rt"
    using keeps_unmarshal [OF keeps_directory utf8_zeros(6) d] rt by (rule runtime_of_utf8)
  then show ?thesis
    unfolding iv by (auto simp: utf8_inventory_def utf8_runtime_def utf8_network_def utf8_host_def
        utf8_rt_host_def host_of_def utf8_group_def utf8_node_def group_of_def)
qed

end
