(* ===== verification/Session.thy ===== *)
theory Session
  imports Client Directory Version
begin

text \<open>
  \<open>internal/control/session.go\<close>: the session that keeps an identity and refreshes the
  inventory. Its state is the session record and the world of \<open>Client\<close>; every step returns a
  result and the new state, so each early return of the source is one branch.

  \<open>wait d\<close> is the \<open>select\<close> on \<open>time.After (d)\<close> and the context: it fails when the context ends
  first. A Go result that carries a value next to an error is that error here; the callers
  look at the error first.
\<close>

section \<open>Operations\<close>

record session =
  se_identity_path :: string
  se_inventory_path :: string
  se_client :: client

type_synonym st = "session \<times> world"

record refresh_options =
  o_auto_approve :: bool
  o_verification_url :: string

definition on_client :: "(client \<Rightarrow> world \<Rightarrow> 'a result \<times> world) \<Rightarrow> st \<Rightarrow> 'a result \<times> st" where
  "on_client f st = (let (s, w) = st; (r, w') = f (se_client s) w in (r, (s, w')))"

definition session_log :: "string \<Rightarrow> garg list \<Rightarrow> st \<Rightarrow> st" where
  "session_log fmt args st = (fst st, logf fmt args (snd st))"

definition on_files :: "(fs \<Rightarrow> unit result \<times> fs) \<Rightarrow> st \<Rightarrow> unit result \<times> st" where
  "on_files f st = (let (s, w) = st; (r, fs') = f (w_fs w) in (r, (s, w\<lparr>w_fs := fs'\<rparr>)))"

definition identity_of :: "st \<Rightarrow> identity" where
  "identity_of st = cl_identity (se_client (fst st))"

definition set_ticket :: "string \<Rightarrow> st \<Rightarrow> st" where
  "set_ticket t st = (let (s, w) = st; c = se_client s
     in (s\<lparr>se_client := c\<lparr>cl_identity := (cl_identity c)\<lparr>id_ticket := t\<rparr>\<rparr>\<rparr>, w))"

definition set_app_version :: "string \<Rightarrow> st \<Rightarrow> st" where
  "set_app_version v st = (let (s, w) = st in (s\<lparr>se_client := (se_client s)\<lparr>cl_app_version := v\<rparr>\<rparr>, w))"

definition open_session :: "string result \<Rightarrow> string result \<Rightarrow> string \<Rightarrow> string \<Rightarrow> fs
    \<Rightarrow> (session \<times> bool) result \<times> fs" where
  "open_session random16 generated identityPath inventoryPath fs =
     (let mk = (\<lambda>i. \<lparr>se_identity_path = identityPath, se_inventory_path = inventoryPath, se_client = new_client i\<rparr>)
      in case load_identity identityPath fs of
           Inr i \<Rightarrow> (Inr (mk i, False), fs)
         | Inl e \<Rightarrow>
             if is_not_exist e then
               (case new_identity random16 generated of
                  Inl e' \<Rightarrow> (Inl e', fs)
                | Inr i \<Rightarrow>
                    (case save_identity identityPath i fs of
                       (Inl e', fs') \<Rightarrow> (Inl (Errorf ''persist identity: %w'' [AErr e']), fs')
                     | (Inr _, fs') \<Rightarrow> (Inr (mk i, True), fs')))
             else (Inl e, fs))"

definition save_session_identity :: "st \<Rightarrow> unit result \<times> st" where
  "save_session_identity st = on_files (save_identity (se_identity_path (fst st)) (identity_of st)) st"

definition remember_ticket :: "string \<Rightarrow> st \<Rightarrow> st" where
  "remember_ticket ticket st =
     (let st = set_ticket ticket st
      in case save_session_identity st of
           (Inr _, st) \<Rightarrow> st
         | (Inl e, st) \<Rightarrow> session_log ''warning: could not record the pending authorisation: %v'' [AErr e] st)"

definition clear_ticket :: "st \<Rightarrow> st" where
  "clear_ticket st =
     (if id_ticket (identity_of st) = [] then st
      else let st = set_ticket [] st
           in case save_session_identity st of
                (Inr _, st) \<Rightarrow> st
              | (Inl e, st) \<Rightarrow> session_log ''warning: could not clear the redeemed authorisation: %v'' [AErr e] st)"

definition persist :: "inventory \<Rightarrow> st \<Rightarrow> unit result \<times> st" where
  "persist iv st =
     (let path = se_inventory_path (fst st)
      in if path = [] then (Inr (), st) else on_files (save_text path (inventory_text iv)) st)"

text \<open>\<open>return inv, s.persist (inv)\<close>\<close>

definition with_persist :: "inventory \<Rightarrow> st \<Rightarrow> inventory result \<times> st" where
  "with_persist iv st = wbind (persist iv st) (\<lambda>_ st. (Inr iv, st))"

definition complete :: "client_env \<Rightarrow> string \<Rightarrow> st \<Rightarrow> inventory result \<times> st" where
  "complete env ticket st =
     wbind (on_client (\<lambda>c. access env c ticket) st) (\<lambda>payload st.
     wbind (parse_inventory payload, st) (\<lambda>iv st.
     with_persist iv st))"

definition parse_sync :: "string \<Rightarrow> st \<Rightarrow> inventory result" where
  "parse_sync payload st =
     rbind (parse_directory payload) (\<lambda>iv.
     let iv = (case load (se_inventory_path (fst st)) (w_fs (snd st)) of
                 Inl _ \<Rightarrow> iv | Inr prev \<Rightarrow> fill_missing_from iv (Some prev))
     in rbind (rwrap (\<lambda>e. Errorf ''sync directory is not usable: %w'' [AErr e]) (validate iv)) (\<lambda>_.
        Inr iv))"

definition try_sync :: "client_env \<Rightarrow> st \<Rightarrow> inventory result \<times> st" where
  "try_sync env st =
     wbind (on_client (sync env) st) (\<lambda>payload st.
     case parse_sync payload st of
       Inr iv \<Rightarrow> (Inr iv, st)
     | Inl e \<Rightarrow>
         (let floor = minimum_version payload
          in if floor = [] \<or> \<not> version_less (cl_app_version (se_client (fst st))) floor then (Inl e, st)
             else (let st = session_log ''control plane requires client version %s; reporting it and retrying'' [AStr floor] st;
                       st = set_app_version floor st
                   in wbind (on_client (sync env) st) (\<lambda>payload st.
                      (parse_sync payload st, st)))))"

text \<open>The ticket approved between two runs, when there is one.\<close>

definition redeem_pending :: "client_env \<Rightarrow> st \<Rightarrow> inventory option \<times> st" where
  "redeem_pending env st =
     (let ticket = id_ticket (identity_of st)
      in if ticket = [] then (None, st)
         else case complete env ticket st of
                (Inr iv, st) \<Rightarrow> (Some iv, clear_ticket st)
              | (Inl _, st) \<Rightarrow> (None, st))"

definition after_bootstrap :: "client_env \<Rightarrow> (int \<Rightarrow> unit result) \<Rightarrow> refresh_options \<Rightarrow> gerr
    \<Rightarrow> bootstrap_result \<Rightarrow> st \<Rightarrow> inventory result \<times> st" where
  "after_bootstrap env wait opt syncErr boot st =
     (case parse_inventory (boot_raw boot) of
        Inr iv \<Rightarrow> with_persist iv (clear_ticket st)
      | Inl _ \<Rightarrow>
          if boot_ticket boot = [] then
            (Inl (Errorf ''no directory available (bootstrap state %q); sync failed: %w''
               [AStr (boot_state boot), AErr syncErr]), st)
          else
            (let st = remember_ticket (boot_ticket boot) st;
                 verifyURL = (if o_verification_url opt = [] then verification_url env (boot_raw boot)
                              else o_verification_url opt)
             in if \<not> o_auto_approve opt then
                  (Inl (NeedsAuthorizationError (boot_ticket boot) verifyURL), st)
                else
                  wbind (on_client (\<lambda>_. authorize env verifyURL (boot_ticket boot)) st) (\<lambda>_ st.
                  wbind (if boot_retry_after boot > 0 then wait (boot_retry_after boot) else Inr (), st) (\<lambda>_ st.
                  wbind (complete env (boot_ticket boot) st) (\<lambda>iv st.
                  (Inr iv, clear_ticket st))))))"

definition refresh :: "client_env \<Rightarrow> (int \<Rightarrow> unit result) \<Rightarrow> refresh_options \<Rightarrow> st \<Rightarrow> inventory result \<times> st" where
  "refresh env wait opt st =
     (case try_sync env st of
        (Inr iv, st) \<Rightarrow> with_persist iv st
      | (Inl syncErr, st) \<Rightarrow>
          (case redeem_pending env st of
             (Some iv, st) \<Rightarrow> (Inr iv, st)
           | (None, st) \<Rightarrow>
               wbind (on_client (bootstrap env) st) (\<lambda>boot st.
               after_bootstrap env wait opt syncErr boot st)))"


section \<open>Which requests a refresh sends\<close>

text \<open>The requests sent between two states belong to a subsequence of these operations.\<close>

definition within :: "st \<Rightarrow> st \<Rightarrow> string list \<Rightarrow> bool" where
  "within st st' ops \<longleftrightarrow> (\<exists>os reqs. subseq os ops \<and> list_all2 is_op os reqs \<and>
     w_sent (snd st') = w_sent (snd st) @ reqs)"

lemma within_refl: "w_sent (snd st') = w_sent (snd st) \<Longrightarrow> within st st' ops"
  unfolding within_def by (intro exI [of _ "[]"]) simp

lemma within_trans: "within st st1 a \<Longrightarrow> within st1 st2 b \<Longrightarrow> within st st2 (a @ b)"
  unfolding within_def by (metis append_assoc list_all2_appendI list_emb_append_mono)

lemma within_mono: "within st st' a \<Longrightarrow> subseq a b \<Longrightarrow> within st st' b"
  unfolding within_def using subseq_order.order_trans by blast

lemma within_one:
  "w_sent (snd st') = w_sent (snd st) \<or> (\<exists>req. w_sent (snd st') = w_sent (snd st) @ [req] \<and> is_op op req) \<Longrightarrow>
   within st st' [op]"
  unfolding within_def
  by (elim disjE exE) (intro exI [of _ "[]"], simp, intro exI [of _ "[op]"], auto)

section \<open>How a session evolves\<close>

text \<open>
  What no step of a session changes: paths, endpoint, platform, client id, key, and every file
  but its two; the version it reports only grows; and the inventory file only ever becomes
  (a written part of) the text of a valid inventory.
\<close>

definition inventory_file_ok :: "node option \<Rightarrow> node option \<Rightarrow> bool" where
  "inventory_file_ok n n' \<longleftrightarrow> (\<forall>d. n' = Some (File d) \<longrightarrow> n = Some (File d) \<or>
     (\<exists>iv. validate iv = Inr () \<and> prefix d (inventory_text iv)))"

definition evolves :: "st \<Rightarrow> st \<Rightarrow> bool" where
  "evolves st st' \<longleftrightarrow>
     (let s = fst st; s' = fst st'; c = se_client s; c' = se_client s'; f = w_fs (snd st); f' = w_fs (snd st')
      in se_identity_path s' = se_identity_path s \<and> se_inventory_path s' = se_inventory_path s
       \<and> cl_endpoint c' = cl_endpoint c \<and> cl_platform c' = cl_platform c
       \<and> id_client (cl_identity c') = id_client (cl_identity c) \<and> id_key (cl_identity c') = id_key (cl_identity c)
       \<and> (cl_app_version c' = cl_app_version c \<or> version_less (cl_app_version c) (cl_app_version c'))
       \<and> fs_refuses f' = fs_refuses f
       \<and> (\<forall>q d. q \<noteq> se_identity_path s \<longrightarrow> q \<noteq> se_inventory_path s \<longrightarrow>
            (fs_nodes f' q = Some (File d) \<longleftrightarrow> fs_nodes f q = Some (File d)))
       \<and> (se_identity_path s \<noteq> se_inventory_path s \<longrightarrow>
            inventory_file_ok (fs_nodes f (se_inventory_path s)) (fs_nodes f' (se_inventory_path s))))"

lemma evolves_refl: "fst st' = fst st \<Longrightarrow> w_fs (snd st') = w_fs (snd st) \<Longrightarrow> evolves st st'"
  by (simp add: evolves_def Let_def inventory_file_ok_def)

lemma evolves_trans: "evolves st st1 \<Longrightarrow> evolves st1 st2 \<Longrightarrow> evolves st st2"
  unfolding evolves_def Let_def inventory_file_ok_def
  by (elim conjE, intro conjI) (auto intro: version.trans)

lemma on_client_call:
  assumes "on_client (\<lambda>c. call env c op (b c)) st = (r, st')"
  shows "evolves st st'" "fst st' = fst st" "op \<noteq> ''authorize'' \<Longrightarrow> within st st' [op]"
    "w_fs (snd st') = w_fs (snd st)"
proof -
  obtain s w w' where st: "st = (s, w)" "st' = (s, w')" "call env (se_client s) op (b (se_client s)) w = (r, w')"
    using assms by (cases st) (auto simp: on_client_def split: prod.splits)
  show "fst st' = fst st" using st by simp
  show "w_fs (snd st') = w_fs (snd st)" using call_world [OF st(3)] st by simp
  show "evolves st st'" using call_world [OF st(3)] st by (intro evolves_refl) auto
  show "op \<noteq> ''authorize'' \<Longrightarrow> within st st' [op]"
    using call_world [OF st(3)] st by (intro within_one) auto
qed

lemma on_client_sync:
  assumes "on_client (sync env) st = (r, st')"
  shows "evolves st st'" "fst st' = fst st" "within st st' [''sync'']" "w_fs (snd st') = w_fs (snd st)"
  using on_client_call [of env "''sync''" identity_request st r st'] assms
  unfolding sync_def by simp_all

lemma on_client_access:
  assumes "on_client (\<lambda>c. access env c ticket) st = (r, st')"
  shows "evolves st st'" "fst st' = fst st" "within st st' [''access'']" "w_fs (snd st') = w_fs (snd st)"
  using on_client_call [of env "''access''" "\<lambda>c. ticket_request c ticket" st r st'] assms
  unfolding access_def by simp_all

lemma on_client_bootstrap:
  assumes "on_client (bootstrap env) st = (r, st')"
  shows "evolves st st'" "fst st' = fst st" "within st st' [''bootstrap'']" "w_fs (snd st') = w_fs (snd st)"
proof -
  obtain r' st1 where c: "on_client (\<lambda>c. call env c ''bootstrap'' (identity_request c)) st = (r', st1)"
    by (rule prod.exhaust) (rule that)
  obtain s w where st: "st = (s, w)" by (cases st)
  obtain r1 w1 where "call env (se_client s) ''bootstrap'' (identity_request (se_client s)) w = (r1, w1)"
    by (metis surj_pair)
  then have "st1 = st'"
    using assms c unfolding st by (cases r1) (simp_all add: on_client_def bootstrap_def)
  then show "evolves st st'" "fst st' = fst st" "within st st' [''bootstrap'']" "w_fs (snd st') = w_fs (snd st)"
    using on_client_call [OF c] by simp_all
qed

lemma on_client_authorize:
  assumes "on_client (\<lambda>_. authorize env url ticket) st = (r, st')"
  shows "evolves st st'" "fst st' = fst st" "within st st' [''authorize'']" "w_fs (snd st') = w_fs (snd st)"
proof -
  obtain s w w' where st: "st = (s, w)" "st' = (s, w')" "authorize env url ticket w = (r, w')"
    using assms by (cases st) (auto simp: on_client_def split: prod.splits)
  show "fst st' = fst st" using st by simp
  show "w_fs (snd st') = w_fs (snd st)" using authorize_spec [OF st(3)] st by auto
  show "evolves st st'" using authorize_spec [OF st(3)] st by (intro evolves_refl) auto
  show "within st st' [''authorize'']"
  proof (rule within_one, unfold st(1,2) snd_conv)
    from authorize_spec [OF st(3)]
    show "w_sent w' = w_sent w \<or> (\<exists>req. w_sent w' = w_sent w @ [req] \<and> is_op ''authorize'' req)"
    proof (elim conjE disjE exE)
      fix u req assume r: "w_sent w' = w_sent w @ [req]"
        "hr_url req = ''https://'' @ url_host u @ ''/api/v1/access/authorize''"
      then have "is_op ''authorize'' req" unfolding is_op_def by (simp only: if_True simp_thms) (rule exI, rule refl)
      with r(1) show ?thesis by (intro disjI2 exI conjI)
    qed (rule disjI1)
  qed
qed

text \<open>The steps that write files.\<close>

lemma save_text_nodes:
  "fs_nodes (snd (save_text path data fs)) path = Some (File d) \<Longrightarrow>
   fs_nodes fs path = Some (File d) \<or> prefix d data"
proof (cases rule: save_text_cases [of path data fs])
  case (1 e fs1)
  moreover assume "fs_nodes (snd (save_text path data fs)) path = Some (File d)"
  ultimately show ?thesis using mkdir_all_file [of "dir_path path" fs path d] by simp
next
  case (2 fs1)
  moreover assume "fs_nodes (snd (save_text path data fs)) path = Some (File d)"
  ultimately show ?thesis
    using mkdir_all_file [of "dir_path path" fs path d]
    by (auto simp: write_file_def take_is_prefix split: if_splits option.splits)
qed

lemma evolves_write:
  assumes "on_files (save_text path data) st = (r, st')"
    and "path = se_identity_path (fst st) \<or>
      path = se_inventory_path (fst st) \<and> (\<exists>iv. validate iv = Inr () \<and> data = inventory_text iv)"
  shows "evolves st st'" "fst st' = fst st" "w_sent (snd st') = w_sent (snd st)"
    "w_fs (snd st') = snd (save_text path data (w_fs (snd st)))" "r = fst (save_text path data (w_fs (snd st)))"
proof -
  obtain s w where st: "st = (s, w)" by (cases st)
  let ?r = "save_text path data (w_fs w)"
  have st': "st' = (s, w\<lparr>w_fs := snd ?r\<rparr>)" "r = fst ?r"
    using assms(1) by (auto simp: st on_files_def split: prod.splits)
  then show "fst st' = fst st" "w_sent (snd st') = w_sent (snd st)"
    "w_fs (snd st') = snd (save_text path data (w_fs (snd st)))" "r = fst (save_text path data (w_fs (snd st)))"
    by (simp_all add: st)
  have "inventory_file_ok (fs_nodes (w_fs w) (se_inventory_path s)) (fs_nodes (snd ?r) (se_inventory_path s))"
    if "se_identity_path s \<noteq> se_inventory_path s"
  proof (cases "path = se_inventory_path s")
    case True
    with assms(2) that obtain iv where "validate iv = Inr ()" "data = inventory_text iv" by (auto simp: st)
    with True show ?thesis
      using save_text_nodes [of path data "w_fs w"] unfolding inventory_file_ok_def by auto
  next
    case False
    then show ?thesis
      using save_text_other [of "se_inventory_path s" path data "w_fs w"] by (simp add: inventory_file_ok_def)
  qed
  then show "evolves st st'"
    using assms(2) save_text_other [of _ path data "w_fs w"] by (auto simp: evolves_def Let_def st st')
qed

lemma save_session_identity_evolves:
  assumes "save_session_identity st = (r, st')"
  shows "evolves st st'" "fst st' = fst st" "w_sent (snd st') = w_sent (snd st)"
    "w_fs (snd st') = snd (save_identity (se_identity_path (fst st)) (identity_of st) (w_fs (snd st)))"
proof -
  have w: "on_files (save_text (se_identity_path (fst st)) (identity_text (identity_of st))) st = (r, st')"
    using assms by (simp add: save_session_identity_def save_identity_def [abs_def])
  note e = evolves_write [OF w]
  show "evolves st st'" "fst st' = fst st" "w_sent (snd st') = w_sent (snd st)" by (rule e; simp)+
  show "w_fs (snd st') = snd (save_identity (se_identity_path (fst st)) (identity_of st) (w_fs (snd st)))"
    using e(4) by (simp add: save_identity_def)
qed

lemma set_ticket_simps [simp]:
  "snd (set_ticket t st) = snd st" "identity_of (set_ticket t st) = (identity_of st)\<lparr>id_ticket := t\<rparr>"
  "se_identity_path (fst (set_ticket t st)) = se_identity_path (fst st)"
  "se_inventory_path (fst (set_ticket t st)) = se_inventory_path (fst st)"
  by (cases st; simp add: set_ticket_def identity_of_def Let_def)+

lemma set_ticket_evolves: "evolves st (set_ticket t st)"
  by (cases st) (simp add: evolves_def set_ticket_def Let_def inventory_file_ok_def)

lemma session_log_simps [simp]:
  "fst (session_log fmt args st) = fst st" "w_sent (snd (session_log fmt args st)) = w_sent (snd st)"
  "w_fs (snd (session_log fmt args st)) = w_fs (snd st)"
  by (simp_all add: session_log_def logf_def)

text \<open>Storing a ticket, or none.\<close>

lemma store_ticket:
  assumes "st' = (case save_session_identity (set_ticket t st) of
      (Inr _, st) \<Rightarrow> st | (Inl e, st) \<Rightarrow> session_log m [AErr e] st)"
  shows "evolves st st'" "w_sent (snd st') = w_sent (snd st)"
    "identity_of st' = (identity_of st)\<lparr>id_ticket := t\<rparr>"
    "se_identity_path (fst st') = se_identity_path (fst st)" "se_inventory_path (fst st') = se_inventory_path (fst st)"
    "w_fs (snd st') = snd (save_identity (se_identity_path (fst st)) ((identity_of st)\<lparr>id_ticket := t\<rparr>) (w_fs (snd st)))"
proof -
  obtain r st1 where 1: "save_session_identity (set_ticket t st) = (r, st1)"
    by (rule prod.exhaust) (rule that)
  note e = save_session_identity_evolves [OF 1]
  have st': "fst st' = fst st1" "w_sent (snd st') = w_sent (snd st1)" "w_fs (snd st') = w_fs (snd st1)"
    using assms 1 by (auto split: sum.splits)
  show "evolves st st'"
    using evolves_trans [OF evolves_trans [OF set_ticket_evolves e(1)] evolves_refl [OF st'(1,3)]] .
  show "w_sent (snd st') = w_sent (snd st)" using e(3) st' by simp
  have "identity_of st' = identity_of (set_ticket t st)"
    using e(2) st'(1) unfolding identity_of_def by simp
  then show "identity_of st' = (identity_of st)\<lparr>id_ticket := t\<rparr>" by simp
  show "se_identity_path (fst st') = se_identity_path (fst st)" "se_inventory_path (fst st') = se_inventory_path (fst st)"
    using e(2) st'(1) by simp_all
  show "w_fs (snd st') = snd (save_identity (se_identity_path (fst st)) ((identity_of st)\<lparr>id_ticket := t\<rparr>) (w_fs (snd st)))"
    using e(4) st'(3) by simp
qed

lemma clear_ticket_cases:
  "id_ticket (identity_of (clear_ticket st)) = []" "evolves st (clear_ticket st)"
  "w_sent (snd (clear_ticket st)) = w_sent (snd st)"
  "se_identity_path (fst (clear_ticket st)) = se_identity_path (fst st)"
  "se_inventory_path (fst (clear_ticket st)) = se_inventory_path (fst st)"
  "w_fs (snd (clear_ticket st)) = w_fs (snd st) \<or>
   w_fs (snd (clear_ticket st)) = snd (save_identity (se_identity_path (fst st)) ((identity_of st)\<lparr>id_ticket := []\<rparr>) (w_fs (snd st)))"
proof -
  have "id_ticket (identity_of (clear_ticket st)) = [] \<and> evolves st (clear_ticket st)
    \<and> w_sent (snd (clear_ticket st)) = w_sent (snd st)
    \<and> se_identity_path (fst (clear_ticket st)) = se_identity_path (fst st)
    \<and> se_inventory_path (fst (clear_ticket st)) = se_inventory_path (fst st)
    \<and> (w_fs (snd (clear_ticket st)) = w_fs (snd st) \<or>
       w_fs (snd (clear_ticket st)) = snd (save_identity (se_identity_path (fst st)) ((identity_of st)\<lparr>id_ticket := []\<rparr>) (w_fs (snd st))))"
  proof (cases "id_ticket (identity_of st) = []")
    case True
    then show ?thesis by (simp add: clear_ticket_def evolves_refl)
  next
    case False
    then have "clear_ticket st = (case save_session_identity (set_ticket [] st) of
        (Inr _, st) \<Rightarrow> st
      | (Inl e, st) \<Rightarrow> session_log ''warning: could not clear the redeemed authorisation: %v'' [AErr e] st)"
      by (simp add: clear_ticket_def Let_def)
    from store_ticket [OF this] show ?thesis by simp
  qed
  then show "id_ticket (identity_of (clear_ticket st)) = []" "evolves st (clear_ticket st)"
    "w_sent (snd (clear_ticket st)) = w_sent (snd st)"
    "se_identity_path (fst (clear_ticket st)) = se_identity_path (fst st)"
    "se_inventory_path (fst (clear_ticket st)) = se_inventory_path (fst st)"
    "w_fs (snd (clear_ticket st)) = w_fs (snd st) \<or>
     w_fs (snd (clear_ticket st)) = snd (save_identity (se_identity_path (fst st)) ((identity_of st)\<lparr>id_ticket := []\<rparr>) (w_fs (snd st)))"
    by blast+
qed

lemma remember_ticket_cases:
  "evolves st (remember_ticket t st)" "w_sent (snd (remember_ticket t st)) = w_sent (snd st)"
  "identity_of (remember_ticket t st) = (identity_of st)\<lparr>id_ticket := t\<rparr>"
  "w_fs (snd (remember_ticket t st)) =
     snd (save_identity (se_identity_path (fst st)) ((identity_of st)\<lparr>id_ticket := t\<rparr>) (w_fs (snd st)))"
  by (rule store_ticket; simp add: remember_ticket_def Let_def)+

section \<open>Every step of a refresh\<close>

definition step :: "st \<Rightarrow> st \<Rightarrow> string list \<Rightarrow> bool" where
  "step st st' ops \<longleftrightarrow> evolves st st' \<and> within st st' ops"

text \<open>What a refresh returns: a valid inventory, and the one that is now on disk.\<close>

definition usable :: "inventory \<Rightarrow> bool" where
  "usable iv \<longleftrightarrow> validate iv = Inr () \<and> utf8_inventory iv"

definition stored :: "inventory \<Rightarrow> st \<Rightarrow> bool" where
  "stored iv st \<longleftrightarrow> (let p = se_inventory_path (fst st)
     in p \<noteq> [] \<longrightarrow> p \<noteq> se_identity_path (fst st) \<longrightarrow> \<not> fs_refuses (w_fs (snd st)) OpRead p \<longrightarrow>
        load p (w_fs (snd st)) = Inr iv)"

lemma step_refl: "fst st' = fst st \<Longrightarrow> w_fs (snd st') = w_fs (snd st) \<Longrightarrow> w_sent (snd st') = w_sent (snd st) \<Longrightarrow>
    step st st' []"
  by (simp add: step_def evolves_refl within_refl)

lemma step_trans: "step st st1 a \<Longrightarrow> step st1 st2 b \<Longrightarrow> step st st2 (a @ b)"
  unfolding step_def by (blast intro: evolves_trans within_trans)

lemma step_mono: "step st st' a \<Longrightarrow> subseq a b \<Longrightarrow> step st st' b"
  unfolding step_def by (blast intro: within_mono)

lemma step_silent: "evolves st st' \<Longrightarrow> w_sent (snd st') = w_sent (snd st) \<Longrightarrow> step st st' []"
  by (simp add: step_def within_refl)

lemma usable_parse: "parse_inventory p = Inr iv \<Longrightarrow> usable iv"
  unfolding usable_def parse_inventory_def res_simps by (elim exE conjE) (simp add: parse_directory_utf8)

lemma usable_parse_sync:
  assumes "parse_sync p st = Inr iv"
  shows "usable iv"
proof -
  obtain iv0 where iv0: "parse_directory p = Inr iv0" and ok: "validate iv = Inr ()"
    and iv: "iv = (case load (se_inventory_path (fst st)) (w_fs (snd st)) of
        Inl _ \<Rightarrow> iv0 | Inr prev \<Rightarrow> fill_missing_from iv0 (Some prev))"
    using assms unfolding parse_sync_def Let_def res_simps by (elim exE conjE) (rule that, assumption, auto)
  have "utf8_inventory iv"
    unfolding iv using parse_directory_utf8 [OF iv0] by (auto intro: fill_missing_utf8 load_utf8 split: sum.split)
  with ok show ?thesis by (simp add: usable_def)
qed

lemma load_Inr: "load p fs = Inr iv \<longleftrightarrow>
    (\<exists>d. read_file p fs = Inr d \<and> unmarshal dec_inventory zero_inventory d = Inr iv \<and> validate iv = Inr ())"
  unfolding load_def res_simps by auto

lemma persist_step:
  assumes "persist iv st = (r, st')" "usable iv"
  shows "step st st' []" "r = Inr () \<Longrightarrow> stored iv st'"
proof -
  let ?p = "se_inventory_path (fst st)"
  have "step st st' [] \<and> (r = Inr () \<longrightarrow> stored iv st')"
  proof (cases "?p = []")
    case True
    then show ?thesis using assms(1) by (simp add: persist_def step_refl stored_def)
  next
    case False
    then have w: "on_files (save_text ?p (inventory_text iv)) st = (r, st')"
      using assms(1) by (simp add: persist_def)
    have ok: "?p = se_identity_path (fst st) \<or>
        ?p = ?p \<and> (\<exists>iv'. validate iv' = Inr () \<and> inventory_text iv = inventory_text iv')"
      using assms(2) by (auto simp: usable_def)
    note e = evolves_write [OF w ok]
    have "load ?p (w_fs (snd st')) = Inr iv"
      if r: "r = Inr ()" and read: "\<not> fs_refuses (w_fs (snd st')) OpRead ?p"
    proof -
      have "save_text ?p (inventory_text iv) (w_fs (snd st)) = (Inr (), w_fs (snd st'))"
        using e(4,5) r by (simp add: prod_eq_iff)
      from inventory_file.saved_reads [OF this] assms(2) read e(4) show ?thesis
        by (auto simp: usable_def load_Inr res_simps)
    qed
    then have "r = Inr () \<longrightarrow> stored iv st'" using e(2) by (simp add: stored_def Let_def)
    with step_silent [OF e(1,3)] show ?thesis by blast
  qed
  then show "step st st' []" "r = Inr () \<Longrightarrow> stored iv st'" by blast+
qed

lemma with_persist_step:
  assumes "with_persist iv st = (r, st')" "usable iv"
  shows "step st st' []" "r = Inr iv' \<Longrightarrow> usable iv' \<and> stored iv' st'"
proof -
  obtain r1 where p: "persist iv st = (r1, st')"
    using assms(1) by (cases "persist iv st"; cases "fst (persist iv st)") (auto simp: with_persist_def)
  then show "step st st' []" using assms(2) by (rule persist_step)
  show "usable iv' \<and> stored iv' st'" if "r = Inr iv'"
    using persist_step(2) [OF p assms(2)] that assms p
    by (cases r1) (auto simp: with_persist_def)
qed

lemma clear_ticket_step:
  "step st (clear_ticket st) []" "stored iv st \<Longrightarrow> stored iv (clear_ticket st)"
proof -
  note c = clear_ticket_cases [of st]
  show "step st (clear_ticket st) []" using c(2,3) by (rule step_silent)
  show "stored iv (clear_ticket st)" if "stored iv st"
    using c(6) that
    by (auto simp: stored_def Let_def c(4,5) load_Inr save_identity_def save_text_read_other)
qed

lemma complete_step:
  assumes "complete env ticket st = (r, st')"
  shows "step st st' [''access'']" "r = Inr iv \<Longrightarrow> usable iv \<and> stored iv st'"
proof -
  obtain r1 st1 where a: "on_client (\<lambda>c. access env c ticket) st = (r1, st1)"
    by (rule prod.exhaust) (rule that)
  note s1 = on_client_access [OF a]
  have s: "step st st1 [''access'']" using s1 by (simp add: step_def)
  have "step st st' [''access''] \<and> (\<forall>iv. r = Inr iv \<longrightarrow> usable iv \<and> stored iv st')"
  proof (cases "rbind r1 parse_inventory")
    case (Inl e)
    with s assms a show ?thesis
      by (cases r1; cases "parse_inventory (projr r1)") (auto simp: complete_def)
  next
    case (Inr iv0)
    then obtain p where "r1 = Inr p" and p: "parse_inventory p = Inr iv0" by (auto simp: res_simps)
    with assms a have "with_persist iv0 st1 = (r, st')" by (simp add: complete_def)
    from with_persist_step [OF this usable_parse [OF p]] step_trans [OF s] show ?thesis by fastforce
  qed
  then show "step st st' [''access'']" "r = Inr iv \<Longrightarrow> usable iv \<and> stored iv st'" by blast+
qed

lemma set_app_version_simps [simp]:
  "snd (set_app_version v st) = snd st" "identity_of (set_app_version v st) = identity_of st"
  by (cases st; simp add: set_app_version_def identity_of_def)+

lemma set_app_version_evolves:
  "version_less (cl_app_version (se_client (fst st))) v \<Longrightarrow> evolves st (set_app_version v st)"
  by (cases st) (simp add: evolves_def set_app_version_def Let_def inventory_file_ok_def)

lemma session_log_step: "step st (session_log fmt args st) []"
  by (rule step_refl) simp_all

text \<open>Sync keeps the two files: only a directory it returns is written, by its caller.\<close>

lemma sync_parse_step:
  assumes "wbind (on_client (sync env) st) (\<lambda>payload st. (parse_sync payload st, st)) = (r, st')"
  shows "step st st' [''sync'']" "identity_of st' = identity_of st" "r = Inr iv \<Longrightarrow> usable iv"
proof -
  obtain r1 st1 where a: "on_client (sync env) st = (r1, st1)" by (rule prod.exhaust) (rule that)
  note s1 = on_client_sync [OF a]
  have st1: "st1 = st'" using assms a by (cases r1) auto
  show "identity_of st' = identity_of st" using s1(2) st1 by (simp add: identity_of_def)
  show "step st st' [''sync'']" using s1 st1 by (simp add: step_def)
  show "usable iv" if "r = Inr iv"
    using assms that a by (cases r1) (auto intro: usable_parse_sync)
qed

lemma try_sync_step:
  assumes "try_sync env st = (r, st')"
  shows "step st st' [''sync'', ''sync'']" "identity_of st' = identity_of st" "r = Inr iv \<Longrightarrow> usable iv"
proof -
  obtain r1 st1 where a: "on_client (sync env) st = (r1, st1)" by (rule prod.exhaust) (rule that)
  have i1: "identity_of st1 = identity_of st" using on_client_sync(2) [OF a] by (simp add: identity_of_def)
  have s1: "step st st1 [''sync'']" using on_client_sync [OF a] by (simp add: step_def)
  have once: "step st st1 [''sync'', ''sync'']" by (rule step_mono [OF s1]) simp
  have "step st st' [''sync'', ''sync''] \<and> identity_of st' = identity_of st \<and> (\<forall>iv. r = Inr iv \<longrightarrow> usable iv)"
  proof (cases r1)
    case (Inl e)
    with assms a once i1 show ?thesis by (auto simp: try_sync_def)
  next
    case (Inr payload)
    let ?floor = "minimum_version payload"
    let ?st2 = "set_app_version ?floor (session_log ''control plane requires client version %s; reporting it and retrying''
        [AStr ?floor] st1)"
    consider (ok) iv where "parse_sync payload st1 = Inr iv"
      | (fail) e where "parse_sync payload st1 = Inl e"
          "?floor = [] \<or> \<not> version_less (cl_app_version (se_client (fst st1))) ?floor"
      | (again) e where "parse_sync payload st1 = Inl e" "?floor \<noteq> []"
          "version_less (cl_app_version (se_client (fst st1))) ?floor"
      by (cases "parse_sync payload st1") auto
    then show ?thesis
    proof cases
      case ok
      with assms a once Inr i1 usable_parse_sync [OF ok] show ?thesis by (auto simp: try_sync_def)
    next
      case fail
      with assms a once i1 Inr show ?thesis by (auto simp: try_sync_def Let_def)
    next
      case again
      have "wbind (on_client (sync env) ?st2) (\<lambda>payload st. (parse_sync payload st, st)) = (r, st')"
        using assms a Inr again by (simp add: try_sync_def Let_def)
      note r = sync_parse_step [OF this]
      have i2: "step st1 ?st2 []"
        using step_trans [OF session_log_step step_silent [OF set_app_version_evolves]] again(3) by simp
      have "identity_of ?st2 = identity_of st" using i1 by (simp add: identity_of_def session_log_def set_app_version_def)
      with step_trans [OF s1 step_trans [OF i2 r(1)]] r(2,3) show ?thesis by simp
    qed
  qed
  then show "step st st' [''sync'', ''sync'']" "identity_of st' = identity_of st" "r = Inr iv \<Longrightarrow> usable iv"
    by blast+
qed

lemma redeem_pending_step:
  assumes "redeem_pending env st = (r, st')"
  shows "step st st' (if id_ticket (identity_of st) = [] then [] else [''access''])"
    "r = Some iv \<Longrightarrow> usable iv \<and> stored iv st'"
proof -
  have "step st st' (if id_ticket (identity_of st) = [] then [] else [''access'']) \<and>
      (\<forall>iv. r = Some iv \<longrightarrow> usable iv \<and> stored iv st')"
  proof (cases "id_ticket (identity_of st) = []")
    case True
    with assms show ?thesis by (simp add: redeem_pending_def step_refl)
  next
    case False
    obtain r1 st1 where c: "complete env (id_ticket (identity_of st)) st = (r1, st1)"
      by (rule prod.exhaust) (rule that)
    note s = complete_step [OF c]
    show ?thesis
    proof (cases r1)
      case (Inl e)
      with assms c s False show ?thesis by (simp add: redeem_pending_def)
    next
      case (Inr iv0)
      then have "r = Some iv0" "st' = clear_ticket st1"
        using assms c False by (simp_all add: redeem_pending_def)
      with step_trans [OF s(1) clear_ticket_step(1)] s(2) [OF Inr] False clear_ticket_step(2) show ?thesis
        by simp
    qed
  qed
  then show "step st st' (if id_ticket (identity_of st) = [] then [] else [''access''])"
    "r = Some iv \<Longrightarrow> usable iv \<and> stored iv st'" by blast+
qed

text \<open>The part of a refresh that waits for an approval given by the client itself.\<close>

definition auto_approval :: "client_env \<Rightarrow> (int \<Rightarrow> unit result) \<Rightarrow> string \<Rightarrow> bootstrap_result \<Rightarrow> st
    \<Rightarrow> inventory result \<times> st" where
  "auto_approval env wait url boot st =
     wbind (on_client (\<lambda>_. authorize env url (boot_ticket boot)) st) (\<lambda>_ st.
     wbind (if boot_retry_after boot > 0 then wait (boot_retry_after boot) else Inr (), st) (\<lambda>_ st.
     wbind (complete env (boot_ticket boot) st) (\<lambda>iv st.
     (Inr iv, clear_ticket st))))"

lemma auto_approval_step:
  assumes "auto_approval env wait url boot st = (r, st')"
  shows "step st st' [''authorize'', ''access''] \<and> (\<forall>iv. r = Inr iv \<longrightarrow> usable iv \<and> stored iv st')"
proof -
  obtain r1 st1 where a: "on_client (\<lambda>_. authorize env url (boot_ticket boot)) st = (r1, st1)"
    by (rule prod.exhaust) (rule that)
  have s1: "step st st1 [''authorize'']" using on_client_authorize [OF a] by (simp add: step_def)
  have s1': "step st st1 [''authorize'', ''access'']" by (rule step_mono [OF s1]) simp
  let ?wait = "if boot_retry_after boot > 0 then wait (boot_retry_after boot) else Inr ()"
  show ?thesis
  proof (cases "is_ok r1 \<and> is_ok ?wait")
    case False
    with assms a s1' show ?thesis
      by (cases r1; cases ?wait) (auto simp: auto_approval_def simp del: if_split)
  next
    case True
    then obtain u1 u2 where ok: "r1 = Inr u1" "?wait = Inr u2" by (auto simp: is_ok_iff simp del: if_split)
    obtain r2 st2 where c: "complete env (boot_ticket boot) st1 = (r2, st2)" by (rule prod.exhaust) (rule that)
    note s2 = step_trans [OF s1 complete_step(1) [OF c]]
    have rest: "(r, st') = wbind (r2, st2) (\<lambda>iv st. (Inr iv, clear_ticket st))"
      using assms a c by (simp only: auto_approval_def ok wbind_simps)
    show ?thesis
    proof (cases r2)
      case (Inl e)
      with rest s2 show ?thesis by simp
    next
      case (Inr iv)
      with rest have "r = Inr iv" "st' = clear_ticket st2" by simp_all
      with step_trans [OF s2 clear_ticket_step(1)] complete_step(2) [OF c Inr] clear_ticket_step(2)
      show ?thesis by simp
    qed
  qed
qed

lemma after_bootstrap_step:
  assumes "after_bootstrap env wait opt e boot st = (r, st')"
  shows "step st st' (if o_auto_approve opt then [''authorize'', ''access''] else []) \<and>
    (\<forall>iv. r = Inr iv \<longrightarrow> usable iv \<and> stored iv st')"
proof (cases "parse_inventory (boot_raw boot)")
  case (Inr iv)
  then have w: "with_persist iv (clear_ticket st) = (r, st')"
    using assms by (simp add: after_bootstrap_def)
  note s = with_persist_step [OF w usable_parse [OF Inr]]
  from step_trans [OF clear_ticket_step(1) s(1)] have "step st st' []" by simp
  moreover from this have "step st st' [''authorize'', ''access'']" by (rule step_mono) simp
  ultimately show ?thesis using s(2) by simp
next
  case (Inl pe)
  let ?st1 = "remember_ticket (boot_ticket boot) st"
  have r1: "step st ?st1 []" by (rule step_silent) (rule remember_ticket_cases)+
  consider (none) "boot_ticket boot = []"
    | (ask) "boot_ticket boot \<noteq> []" "\<not> o_auto_approve opt"
    | (auto) "boot_ticket boot \<noteq> []" "o_auto_approve opt"
    by blast
  then show ?thesis
  proof cases
    case none
    have "step st st []" by (rule step_refl) simp_all
    moreover from this have "step st st [''authorize'', ''access'']" by (rule step_mono) simp
    ultimately show ?thesis using assms Inl none by (auto simp: after_bootstrap_def)
  next
    case ask
    with assms Inl r1 show ?thesis by (auto simp: after_bootstrap_def Let_def)
  next
    case auto
    obtain url where "auto_approval env wait url boot ?st1 = (r, st')"
      using assms Inl auto by (simp add: after_bootstrap_def Let_def auto_approval_def)
    from auto_approval_step [OF this] step_trans [OF r1, of st' "[''authorize'', ''access'']"] auto
    show ?thesis by simp
  qed
qed

text \<open>The operations a refresh may send, in order: each at most as often as listed.\<close>

definition refresh_ops :: "bool \<Rightarrow> bool \<Rightarrow> string list" where
  "refresh_ops pending auto = [''sync'', ''sync''] @ (if pending then [''access''] else [])
     @ [''bootstrap''] @ (if auto then [''authorize'', ''access''] else [])"

lemma refresh_step:
  assumes "refresh env wait opt st = (r, st')"
  shows "step st st' (refresh_ops (id_ticket (identity_of st) \<noteq> []) (o_auto_approve opt)) \<and>
    (\<forall>iv. r = Inr iv \<longrightarrow> usable iv \<and> stored iv st')"
proof -
  let ?ops = "refresh_ops (id_ticket (identity_of st) \<noteq> []) (o_auto_approve opt)"
  obtain r1 st1 where 1: "try_sync env st = (r1, st1)" by (rule prod.exhaust) (rule that)
  note s1 = try_sync_step [OF 1]
  note same = s1(2)
  show ?thesis
  proof (cases r1)
    case (Inr iv)
    then have w: "with_persist iv st1 = (r, st')" using assms 1 by (simp add: refresh_def)
    note s = with_persist_step [OF w s1(3) [OF Inr]]
    have "step st st' ?ops"
      using step_trans [OF s1(1) s(1)] by (rule step_mono) (simp add: refresh_ops_def)
    with s(2) show ?thesis by simp
  next
    case (Inl e)
    obtain r2 st2 where 2: "redeem_pending env st1 = (r2, st2)" by (rule prod.exhaust) (rule that)
    note s2 = redeem_pending_step [OF 2, unfolded same]
    note s12 = step_trans [OF s1(1) s2(1)]
    show ?thesis
    proof (cases r2)
      case (Some iv)
      then have "r = Inr iv" "st' = st2" using assms 1 2 Inl by (simp_all add: refresh_def)
      moreover have "step st st2 ?ops" by (rule step_mono [OF s12]) (simp add: refresh_ops_def)
      ultimately show ?thesis using s2(2) [OF Some] by simp
    next
      case None
      obtain r3 st3 where 3: "on_client (bootstrap env) st2 = (r3, st3)" by (rule prod.exhaust) (rule that)
      have s3: "step st2 st3 [''bootstrap'']" using on_client_bootstrap [OF 3] by (simp add: step_def)
      note s123 = step_trans [OF s12 s3]
      show ?thesis
      proof (cases r3)
        case (Inl e')
        then have "r = Inl e'" "st' = st3" using assms 1 2 3 \<open>r1 = Inl e\<close> None by (simp_all add: refresh_def)
        moreover have "step st st3 ?ops" by (rule step_mono [OF s123]) (simp add: refresh_ops_def)
        ultimately show ?thesis by simp
      next
        case (Inr boot)
        then have "after_bootstrap env wait opt e boot st3 = (r, st')"
          using assms 1 2 3 \<open>r1 = Inl e\<close> None by (simp add: refresh_def)
        from after_bootstrap_step [OF this] step_trans [OF s123] show ?thesis
          by (fastforce simp: refresh_ops_def)
      qed
    qed
  qed
qed

text \<open>What every step keeps, a refresh keeps.\<close>

locale session_invariant =
  fixes I :: "st \<Rightarrow> bool"
  assumes kept: "I st \<Longrightarrow> fst st' = fst st \<Longrightarrow> w_fs (snd st') = w_fs (snd st) \<Longrightarrow> I st'"
    and version: "I st \<Longrightarrow> I (set_app_version v st)"
    and persist: "I st \<Longrightarrow> I (snd (persist iv st))"
    and remember: "I st \<Longrightarrow> valid_utf8 t \<Longrightarrow> I (remember_ticket t st)"
    and clear: "I st \<Longrightarrow> I (clear_ticket st)"
begin

lemma logged: "I st \<Longrightarrow> I (session_log fmt args st)"
  by (erule kept) simp_all

lemma with_persist: "I st \<Longrightarrow> I (snd (with_persist iv st))"
  using persist [of st iv] by (cases "persist iv st"; cases "fst (persist iv st)") (auto simp: with_persist_def)

lemma asked:
  "I st \<Longrightarrow> on_client (\<lambda>c. access env c ticket) st = (r1, st') \<Longrightarrow> I st'"
  "I st \<Longrightarrow> on_client (sync env) st = (r2, st') \<Longrightarrow> I st'"
  "I st \<Longrightarrow> on_client (bootstrap env) st = (r3, st') \<Longrightarrow> I st'"
  "I st \<Longrightarrow> on_client (\<lambda>_. authorize env url ticket) st = (r4, st') \<Longrightarrow> I st'"
  by (erule kept; erule on_client_access on_client_sync on_client_bootstrap on_client_authorize)+

lemma wbind: "m = (r, st1) \<Longrightarrow> I st1 \<Longrightarrow> (\<And>x st. r = Inr x \<Longrightarrow> I st \<Longrightarrow> I (snd (f x st))) \<Longrightarrow> I (snd (wbind m f))"
  by (cases r) auto

lemma complete:
  assumes "I st"
  shows "I (snd (complete env ticket st))"
proof -
  obtain r1 st1 where a: "on_client (\<lambda>c. access env c ticket) st = (r1, st1)" by (rule prod.exhaust) (rule that)
  show ?thesis
    unfolding complete_def
    by (rule wbind [OF a asked(1) [OF assms a]], rule wbind [OF refl], assumption, rule with_persist)
qed

lemma try_sync:
  assumes "I st"
  shows "I (snd (try_sync env st))"
proof -
  obtain r1 st1 where a: "on_client (sync env) st = (r1, st1)" by (rule prod.exhaust) (rule that)
  have again: "I (snd (wbind (on_client (sync env) st2) (\<lambda>payload st. (parse_sync payload st, st))))" if "I st2" for st2
  proof -
    obtain r2 st3 where b: "on_client (sync env) st2 = (r2, st3)" by (rule prod.exhaust) (rule that)
    show ?thesis by (rule wbind [OF b asked(2) [OF that b]]) simp
  qed
  show ?thesis
    unfolding try_sync_def
    by (rule wbind [OF a asked(2) [OF assms a]]) (auto simp: Let_def split: sum.split intro!: again version logged)
qed

lemma redeem_pending: "I st \<Longrightarrow> I (snd (redeem_pending env st))"
  using complete [of st env "id_ticket (identity_of st)"]
  by (auto simp: redeem_pending_def Let_def split: sum.split prod.split intro: clear)

lemma auto_approval:
  assumes "I st"
  shows "I (snd (auto_approval env wait url boot st))"
proof -
  obtain r1 st1 where a: "on_client (\<lambda>_. authorize env url (boot_ticket boot)) st = (r1, st1)"
    by (rule prod.exhaust) (rule that)
  have c: "I (snd (wbind (complete env (boot_ticket boot) st2) (\<lambda>iv st. (Inr iv, clear_ticket st))))" if "I st2" for st2
    using complete [OF that] by (intro wbind [OF prod.collapse [symmetric]]) (auto intro: clear)
  show ?thesis
    unfolding auto_approval_def
    by (rule wbind [OF a asked(4) [OF assms a]], rule wbind [OF refl], assumption, rule c)
qed

lemma after_bootstrap:
  "I st \<Longrightarrow> valid_utf8 (boot_ticket boot) \<Longrightarrow> I (snd (after_bootstrap env wait opt e boot st))"
  unfolding after_bootstrap_def Let_def auto_approval_def [symmetric]
  by (auto split: sum.split intro: with_persist clear auto_approval remember)

lemma refresh:
  assumes "I st" "\<And>st boot st'. on_client (bootstrap env) st = (Inr boot, st') \<Longrightarrow> valid_utf8 (boot_ticket boot)"
  shows "I (snd (refresh env wait opt st))"
proof -
  obtain r1 st1 where 1: "try_sync env st = (r1, st1)" by (rule prod.exhaust) (rule that)
  have i1: "I st1" using try_sync [OF assms(1), of env] 1 by simp
  obtain r2 st2 where 2: "redeem_pending env st1 = (r2, st2)" by (rule prod.exhaust) (rule that)
  have i2: "I st2" using redeem_pending [OF i1, of env] 2 by simp
  obtain r3 st3 where 3: "on_client (bootstrap env) st2 = (r3, st3)" by (rule prod.exhaust) (rule that)
  have "I (snd (wbind (on_client (bootstrap env) st2) (\<lambda>boot st. after_bootstrap env wait opt e boot st)))" for e
    using assms(2) [of st2 _ st3] 3 by (intro wbind [OF 3 asked(3) [OF i2 3]] after_bootstrap) auto
  then show ?thesis
    using i2 with_persist [OF i1] by (auto simp: refresh_def 1 2 split: sum.split option.split)
qed

end

end
