(* ===== verification/Refresh.thy ===== *)
theory Refresh
  imports Session
begin

text \<open>
  What a refresh of the session guarantees: which requests it sends and in which order, what it
  may write, that what it returns is valid and stored, and that an approval given between two
  runs is redeemed by the second.
\<close>

section \<open>Two runs\<close>

text \<open>
  The identity in memory is the one on disk, and the disk can be written: then this stays so
  through a refresh, so that a run can be continued by the next one.
\<close>

definition settled :: "st \<Rightarrow> bool" where
  "settled st \<longleftrightarrow> (let p = se_identity_path (fst st); f = w_fs (snd st)
     in p \<noteq> se_inventory_path (fst st) \<and> fs_refuses f = (\<lambda>_ _. False) \<and> fs_room f p = None
      \<and> fs_nodes f (dir_path p) = Some Dir \<and> good_identity (identity_of st)
      \<and> load_identity p f = Inr (identity_of st))"

lemma save_text_room [simp]: "fs_room (snd (save_text path data fs)) = fs_room fs"
  by (auto simp: save_text_def write_file_def mkdir_all_def split: option.splits node.splits)

lemma save_text_dir: "fs_nodes fs q = Some Dir \<Longrightarrow> fs_nodes (snd (save_text path data fs)) q = Some Dir"
  by (auto simp: save_text_def write_file_def mkdir_all_def split: option.splits node.splits)

lemma save_text_node: "q \<noteq> path \<Longrightarrow> q \<noteq> dir_path path \<Longrightarrow> fs_nodes (snd (save_text path data fs)) q = fs_nodes fs q"
  by (auto simp: save_text_def write_file_def mkdir_all_def split: option.splits node.splits)

lemma load_identity_Inr: "load_identity p fs = Inr i \<longleftrightarrow> (\<exists>d. read_file p fs = Inr d \<and> parse_identity p d = Inr i)"
  by (auto simp: load_identity_def res_simps)

lemma save_identity_settles:
  assumes "fs_refuses f = (\<lambda>_ _. False)" "fs_room f p = None" "fs_nodes f (dir_path p) = Some Dir"
    and "load_identity p f = Inr j" "good_identity i"
  shows "save_identity p i f = (Inr (), snd (save_identity p i f))"
    "load_identity p (snd (save_identity p i f)) = Inr i"
proof -
  have "fs_nodes f p \<noteq> Some Dir" using assms(4) by (auto simp: load_identity_Inr read_file_Inr)
  then have s: "save_text p (identity_text i) f = (Inr (), snd (save_text p (identity_text i) f))"
    using assms(1-3) by (simp add: save_text_def mkdir_all_def write_file_def)
  then show "save_identity p i f = (Inr (), snd (save_identity p i f))" by (simp only: save_identity_def)
  from identity_file.saved_reads [OF s assms(5)] assms(1)
  show "load_identity p (snd (save_identity p i f)) = Inr i"
    by (simp add: load_identity_def save_identity_def)
qed

lemma settled_kept: "settled st \<Longrightarrow> fst st' = fst st \<Longrightarrow> w_fs (snd st') = w_fs (snd st) \<Longrightarrow> settled st'"
  by (simp add: settled_def Let_def identity_of_def)

lemma settled_saved:
  assumes "settled st" "good_identity ((identity_of st)\<lparr>id_ticket := t\<rparr>)"
    and "identity_of st' = (identity_of st)\<lparr>id_ticket := t\<rparr>"
    and "se_identity_path (fst st') = se_identity_path (fst st)" "se_inventory_path (fst st') = se_inventory_path (fst st)"
    and "w_fs (snd st') = snd (save_identity (se_identity_path (fst st)) ((identity_of st)\<lparr>id_ticket := t\<rparr>) (w_fs (snd st)))"
  shows "settled st'"
  using assms save_identity_settles(2) [of "w_fs (snd st)" "se_identity_path (fst st)" "identity_of st"
      "(identity_of st)\<lparr>id_ticket := t\<rparr>"]
  by (simp add: settled_def Let_def save_identity_def save_text_dir)

lemma settled_persist: "settled st \<Longrightarrow> settled (snd (persist iv st))"
  by (auto simp: settled_def Let_def persist_def on_files_def identity_of_def split_def
      load_identity_Inr save_text_read_other save_text_dir)

interpretation settled: session_invariant settled
proof unfold_locales
  fix st st' :: st and t v iv
  show "settled st \<Longrightarrow> fst st' = fst st \<Longrightarrow> w_fs (snd st') = w_fs (snd st) \<Longrightarrow> settled st'"
    by (rule settled_kept)
  show "settled st \<Longrightarrow> settled (set_app_version v st)"
    by (cases st) (simp add: settled_def Let_def set_app_version_def identity_of_def)
  show "settled st \<Longrightarrow> settled (snd (persist iv st))" by (rule settled_persist)
  show "settled (remember_ticket t st)" if "settled st" "valid_utf8 t"
  proof -
    have "remember_ticket t st = (case save_session_identity (set_ticket t st) of
        (Inr _, st) \<Rightarrow> st
      | (Inl e, st) \<Rightarrow> session_log ''warning: could not record the pending authorisation: %v'' [AErr e] st)"
      by (simp add: remember_ticket_def Let_def)
    from store_ticket(3-) [OF this] that show ?thesis
      by (intro settled_saved [OF that(1)]) (auto simp: settled_def good_identity_def Let_def)
  qed
  show "settled (clear_ticket st)" if "settled st"
  proof (cases "id_ticket (identity_of st) = []")
    case False
    then have "clear_ticket st = (case save_session_identity (set_ticket [] st) of
        (Inr _, st) \<Rightarrow> st
      | (Inl e, st) \<Rightarrow> session_log ''warning: could not clear the redeemed authorisation: %v'' [AErr e] st)"
      by (simp add: clear_ticket_def Let_def)
    from store_ticket(3-) [OF this] that show ?thesis
      by (intro settled_saved [OF that]) (auto simp: settled_def good_identity_def Let_def)
  qed (use that in \<open>simp add: clear_ticket_def\<close>)
qed

definition utf8_access :: "bootstrap_access \<Rightarrow> bool" where
  "utf8_access a \<longleftrightarrow> valid_utf8 (ba_state a) \<and> valid_utf8 (ba_ticket a)"

lemma keeps_access: "keeps utf8_access (dec_struct access_field)"
  by (rule keeps_structI, unfold access_field_def,
      intro fst_ifI [where P = utf8_access] keeps_into [OF keeps_string, where P = utf8_access]
        keeps_into [OF keeps_any, where d = dec_int and P = utf8_access])
    (simp_all add: utf8_access_def)

lemma keeps_bootstrap: "keeps utf8_access (dec_struct bootstrap_field)"
  using keeps_access
  by (intro keeps_structI) (auto simp: bootstrap_field_def keeps_def)

lemma bootstrap_ticket_utf8:
  assumes "on_client (bootstrap env) st = (Inr boot, st')"
  shows "valid_utf8 (boot_ticket boot)"
proof -
  obtain plain where "parse_bootstrap plain = Inr boot"
    using assms by (auto simp: on_client_def bootstrap_def wbind_def Let_def split: prod.splits sum.splits)
  then obtain p where p: "unmarshal (dec_struct bootstrap_field) \<lparr>ba_state = [], ba_ticket = [], ba_retry = 0\<rparr> plain = Inr p"
    and b: "boot_ticket boot = ba_ticket p" by (auto simp: parse_bootstrap_def res_simps)
  have "utf8_access \<lparr>ba_state = [], ba_ticket = [], ba_retry = 0\<rparr>" by (simp add: utf8_access_def)
  from keeps_unmarshal [OF keeps_bootstrap this p] b show ?thesis by (simp add: utf8_access_def)
qed

lemma open_settled:
  assumes "settled (s, w)"
  shows "open_session rnd gen (se_identity_path s) (se_inventory_path s) (w_fs w) =
    (Inr (\<lparr>se_identity_path = se_identity_path s, se_inventory_path = se_inventory_path s,
       se_client = new_client (identity_of (s, w))\<rparr>, False), w_fs w)"
  using assms by (simp add: open_session_def settled_def Let_def)

section \<open>A server that answers from a script\<close>

definition toy_srv :: "string list \<Rightarrow> http_req list \<Rightarrow> http_req \<Rightarrow> http_resp result" where
  "toy_srv answers sent req = sealed (nth_default [] answers (length sent))"

abbreviation served :: "string list \<Rightarrow> st \<Rightarrow> string \<Rightarrow> bool" where
  "served answers st plain \<equiv> nth_default [] answers (length (w_sent (snd st))) = plain \<and> length plain \<le> 8 * 2 ^ 20
    \<and> has_prefix (cl_endpoint (se_client (fst st))) ''https:''"

definition turn :: "st \<Rightarrow> st \<Rightarrow> bool" where
  "turn st st' \<longleftrightarrow> fst st' = fst st \<and> w_fs (snd st') = w_fs (snd st)
    \<and> length (w_sent (snd st')) = Suc (length (w_sent (snd st)))"

lemma toy_on_client:
  assumes "served answers st plain"
  obtains st' where "on_client (\<lambda>c. call (toy_env (toy_srv answers)) c op (b c)) st = (Inr plain, st')" "turn st st'"
proof -
  obtain s w where st: "st = (s, w)" by (cases st)
  obtain r w' where c: "call (toy_env (toy_srv answers)) (se_client s) op (b (se_client s)) w = (r, w')"
    by (rule prod.exhaust) (rule that)
  have "r = Inr plain" "length (w_sent w') = Suc (length (w_sent w))"
    using toy_call [where srv = "toy_srv answers" and w = w and body = "b (se_client s)" and plain = plain
        and cl = "se_client s" and op = op] assms c
    by (simp_all add: st toy_srv_def)
  moreover have "w_fs w' = w_fs w" using call_world [OF c] by simp
  ultimately show ?thesis using c by (intro that [of "(s, w')"]) (simp_all add: st on_client_def turn_def)
qed

lemma parse_sample:
  "parse_inventory (access_text sample_inventory (runtime_json zero_inventory)) = Inr sample_inventory"
proof -
  have "utf8_inventory zero_inventory" by (simp add: utf8_inventory_def zero_inventory_def)
  from parse_access_text [OF utf8_sample_inventory this] sample_valid show ?thesis
    by (simp add: parse_inventory_def)
qed

text \<open>The texts used are short enough to be read whole.\<close>

lemma quote_ascii: "\<forall>c \<in> set s. code c < 128 \<Longrightarrow> length (quote_body s) \<le> 6 * length s"
  by (induction s) (auto simp: quote_body.simps esc_char_def esc_u_def)

lemma quote_short: "list_all (\<lambda>c. code c < 128) s \<Longrightarrow> length (quote_json s) \<le> 2 + 6 * length s"
  using quote_ascii [of s] by (simp add: quote_json_def list_all_iff)

definition json_plain :: "char \<Rightarrow> bool" where
  "json_plain c \<longleftrightarrow> code c < 128 \<and> esc_char c = [c]"

lemma json_plain: "json_plain c \<longleftrightarrow> 32 \<le> code c \<and> code c < 128 \<and> c \<notin> {CHR 0x5C, CHR 0x22, CHR ''<'', CHR ''>'', CHR ''&''}"
  by (auto simp: json_plain_def esc_char_def esc_u_def)

lemma quote_body_plain: "list_all json_plain s \<Longrightarrow> quote_body s = s"
  by (induction s) (simp_all add: quote_body.simps json_plain_def)

lemma quote_literal: "list_all json_plain s \<Longrightarrow> length (quote_json s) = 2 + length s"
  by (simp add: quote_json_def quote_body_plain)

lemma sample_short: "length (access_text sample_inventory (runtime_json zero_inventory)) \<le> 8 * 2 ^ 20"
proof -
  have "list_all (\<lambda>c. code c < 128) (b64_encode StdEncoding key_bytes)"
    by (auto simp: list_all_iff dest: b64_encode_plain plain_char_ascii)
  from quote_short [OF this] have "length (quote_json (b64_encode StdEncoding key_bytes)) \<le> 266"
    by (simp add: length_b64_encode_padded)
  then show ?thesis
    by (simp add: access_text_def runtime_json_def marshal_indent_def sample_inventory_def sample_host_def
        group_json_def host_json_def enc_list_def nl_def zero_inventory_def quote_literal json_plain)
qed

text \<open>A disk with one directory, that refuses nothing.\<close>

definition toy_disk :: "fs \<Rightarrow> bool" where
  "toy_disk f \<longleftrightarrow> fs_refuses f = (\<lambda>_ _. False) \<and> fs_room f = (\<lambda>_. None)
    \<and> fs_nodes f ''/d'' = Some Dir \<and> fs_nodes f ''/d/inv.json'' \<noteq> Some Dir"

lemma toy_dirs: "dir_path ''/d/inv.json'' = ''/d''" "dir_path ''/d/identity.json'' = ''/d''"
  by code_simp+

lemma toy_complete:
  assumes "served answers st (access_text sample_inventory (runtime_json zero_inventory))"
    and "se_inventory_path (fst st) = ''/d/inv.json''" "toy_disk (w_fs (snd st))"
  obtains st' where "complete (toy_env (toy_srv answers)) ticket st = (Inr sample_inventory, st')"
proof -
  obtain st1 where c: "on_client (\<lambda>c. access (toy_env (toy_srv answers)) c ticket) st =
      (Inr (access_text sample_inventory (runtime_json zero_inventory)), st1)" and t: "turn st st1"
    using toy_on_client [OF assms(1), of "''access''" "\<lambda>c. ticket_request c ticket"]
    unfolding access_def by blast
  obtain st2 where "persist sample_inventory st1 = (Inr (), st2)"
    using assms(2,3) t
    by (auto simp: persist_def on_files_def turn_def split_def toy_disk_def save_text_def toy_dirs mkdir_all_def
        write_file_def)
  with c show ?thesis by (intro that [of st2]) (simp add: complete_def parse_sample with_persist_def)
qed

lemma toy_try_sync:
  assumes "served answers st ''{}''"
  obtains e st' where "try_sync (toy_env (toy_srv answers)) st = (Inl e, st')" "turn st st'"
proof -
  obtain st' where c: "on_client (sync (toy_env (toy_srv answers))) st = (Inr ''{}'', st')" and t: "turn st st'"
    using toy_on_client [OF assms, of "''sync''" identity_request] unfolding sync_def by blast
  obtain e where "parse_directory ''{}'' = Inl e"
  proof (cases "parse_directory ''{}''")
    case (Inr x)
    moreover have "\<not> is_ok (parse_directory ''{}'')" by code_simp
    ultimately show ?thesis by simp
  qed (rule that)
  moreover have "minimum_version ''{}'' = []" by code_simp
  ultimately have "try_sync (toy_env (toy_srv answers)) st = (Inl e, st')"
    using c by (simp add: try_sync_def parse_sync_def)
  then show ?thesis using t by (rule that)
qed

definition toy_session :: "string \<Rightarrow> st" where
  "toy_session t = (\<lparr>se_identity_path = ''/d/identity.json'', se_inventory_path = ''/d/inv.json'',
      se_client = new_client (sample_identity\<lparr>id_ticket := t\<rparr>)\<rparr>,
    toy_world\<lparr>w_fs := plain_fs [(''/d'', Dir), (''/d/identity.json'', File (identity_text (sample_identity\<lparr>id_ticket := t\<rparr>)))]\<rparr>)"

definition pending_text :: string where
  "pending_text = ''{'' @ dquote ''access'' @ '':{'' @ dquote ''ticket'' @ '':'' @ dquote ''t1'' @ ''}}''"

definition toy_ask :: refresh_options where
  "toy_ask = \<lparr>o_auto_approve = False, o_verification_url = []\<rparr>"

definition toy_run :: "string \<Rightarrow> string list \<Rightarrow> inventory result \<times> st" where
  "toy_run t answers = refresh (toy_env (toy_srv answers)) (\<lambda>_. Inr ()) toy_ask (toy_session t)"

lemma toy_session_simps [simp]:
  "cl_endpoint (se_client (fst (toy_session t))) = ''https://client-api.nexttun.net/api/v1/client''"
  "w_sent (snd (toy_session t)) = []" "identity_of (toy_session t) = sample_identity\<lparr>id_ticket := t\<rparr>"
  "se_inventory_path (fst (toy_session t)) = ''/d/inv.json''" "se_identity_path (fst (toy_session t)) = ''/d/identity.json''"
  "toy_disk (w_fs (snd (toy_session t)))"
  by (simp_all add: toy_session_def new_client_def toy_world_def identity_of_def toy_disk_def plain_fs_def)

lemma settled_toy: "valid_utf8 t \<Longrightarrow> settled (toy_session t)"
proof -
  assume "valid_utf8 t"
  then have "good_identity (sample_identity\<lparr>id_ticket := t\<rparr>)" by (simp add: good_identity_def sample_identity_def)
  then show ?thesis
    by (simp add: settled_def toy_session_def toy_world_def plain_fs_def toy_dirs identity_of_def new_client_def
        load_identity_def read_file_def parse_identity_text)
qed

lemma toy_pending:
  obtains st where "toy_run [] (''{}'' # pending_text # rest) = (Inl (NeedsAuthorizationError ''t1'' []), st)"
    "id_ticket (identity_of st) = ''t1''" "length (w_sent (snd st)) = 2" "toy_disk (w_fs (snd st))"
    "se_inventory_path (fst st) = ''/d/inv.json''" "se_identity_path (fst st) = ''/d/identity.json''"
proof -
  let ?srv = "toy_srv (''{}'' # pending_text # rest)"
  obtain e st1 where 1: "try_sync (toy_env ?srv) (toy_session []) = (Inl e, st1)" and t1: "turn (toy_session []) st1"
    by (rule toy_try_sync [of "''{}'' # pending_text # rest" "toy_session []"]) (auto simp: has_prefix_def)
  have "length pending_text \<le> 8 * 2 ^ 20" by (simp add: pending_text_def dquote_def)
  moreover have "length (w_sent (snd st1)) = 1" "fst st1 = fst (toy_session [])"
    using t1 by (simp_all add: turn_def)
  ultimately have srv: "served (''{}'' # pending_text # rest) st1 pending_text" by (simp add: has_prefix_def)
  obtain st2 where 2: "on_client (\<lambda>c. call (toy_env ?srv) c ''bootstrap'' (identity_request c)) st1
      = (Inr pending_text, st2)" and t2: "turn st1 st2"
    by (rule toy_on_client [OF srv])
  have p: "parse_bootstrap pending_text
      = Inr \<lparr>boot_state = [], boot_ticket = ''t1'', boot_retry_after = 0, boot_raw = pending_text\<rparr>"
    by code_simp
  obtain e' where n: "parse_inventory pending_text = Inl e'"
  proof (cases "parse_inventory pending_text")
    case (Inr x)
    moreover have "\<not> is_ok (parse_inventory pending_text)" by code_simp
    ultimately show ?thesis by simp
  qed (rule that)
  have u: "verification_url (toy_env ?srv) pending_text = []" by code_simp
  have b: "on_client (bootstrap (toy_env ?srv)) st1
      = (Inr \<lparr>boot_state = [], boot_ticket = ''t1'', boot_retry_after = 0, boot_raw = pending_text\<rparr>, st2)"
    using 2 p by (cases st1; cases st2) (auto simp: on_client_def bootstrap_def Let_def wbind_def split: prod.splits sum.splits)
  have i: "identity_of st1 = sample_identity\<lparr>id_ticket := []\<rparr>" "identity_of st2 = identity_of st1"
    using t1 t2 toy_session_simps(3) [of "[]"] unfolding turn_def identity_of_def by simp_all
  have r: "toy_run [] (''{}'' # pending_text # rest)
      = (Inl (NeedsAuthorizationError ''t1'' []), remember_ticket ''t1'' st2)"
    using 1 b n u i by (simp add: toy_run_def refresh_def redeem_pending_def after_bootstrap_def toy_ask_def)
  have "toy_disk (w_fs (snd (remember_ticket ''t1'' st2)))"
    using t1 t2 toy_session_simps(6) [of "[]"]
    by (simp add: remember_ticket_cases(4) turn_def toy_disk_def save_identity_def toy_dirs save_text_dir save_text_node)
  moreover have "evolves st2 (remember_ticket ''t1'' st2)" by (rule remember_ticket_cases)
  ultimately show ?thesis
    using t1 t2 toy_session_simps(2,4,5) [of "[]"] remember_ticket_cases(2,3) [of "''t1''" st2]
    by (intro that [OF r]) (simp_all add: turn_def evolves_def Let_def)
qed

lemma toy_redeemed:
  obtains st where "toy_run ''t'' [''{}'', access_text sample_inventory (runtime_json zero_inventory)]
      = (Inr sample_inventory, st)"
proof -
  let ?answers = "[''{}'', access_text sample_inventory (runtime_json zero_inventory)]"
  obtain e st1 where 1: "try_sync (toy_env (toy_srv ?answers)) (toy_session ''t'') = (Inl e, st1)"
    and t1: "turn (toy_session ''t'') st1"
    by (rule toy_try_sync [of ?answers "toy_session ''t''"]) (auto simp: has_prefix_def)
  then have "served ?answers st1 (access_text sample_inventory (runtime_json zero_inventory))"
    using sample_short by (simp add: turn_def has_prefix_def)
  moreover have "se_inventory_path (fst st1) = ''/d/inv.json''" "toy_disk (w_fs (snd st1))" "id_ticket (identity_of st1) = ''t''"
    using t1 toy_session_simps(3) [of "''t''"] by (simp_all add: turn_def identity_of_def)
  ultimately obtain st2 where "complete (toy_env (toy_srv ?answers)) ''t'' st1 = (Inr sample_inventory, st2)"
    by - (rule toy_complete)
  with 1 \<open>id_ticket (identity_of st1) = ''t''\<close>
  have "toy_run ''t'' ?answers = (Inr sample_inventory, clear_ticket st2)"
    by (simp add: toy_run_def refresh_def redeem_pending_def)
  then show ?thesis by (rule that)
qed

text \<open>Two runs of the session against one server: the ticket is approved in between.\<close>

definition toy_script :: "string list" where
  "toy_script = [''{}'', pending_text, ''{}'', access_text sample_inventory (runtime_json zero_inventory)]"

section \<open>Properties\<close>

text \<open>
  C14: A refresh sends at most two syncs, then at most one access for a ticket it already had,
  then at most one bootstrap, and only with automatic approval an authorisation and one more
  access: in this order and at most six requests in all.
\<close>

lemma refresh_requests:
  assumes "refresh env wait opt st = (r, st')"
  shows "within st st' (refresh_ops (id_ticket (identity_of st) \<noteq> []) (o_auto_approve opt))
    \<and> length (w_sent (snd st')) \<le> length (w_sent (snd st)) + 6"
proof -
  let ?ops = "refresh_ops (id_ticket (identity_of st) \<noteq> []) (o_auto_approve opt)"
  have w: "within st st' ?ops" using refresh_step [OF assms] by (simp add: step_def)
  then obtain os reqs where "subseq os ?ops" "list_all2 is_op os reqs" "w_sent (snd st') = w_sent (snd st) @ reqs"
    unfolding within_def by blast
  moreover from this have "length os \<le> length ?ops" "length reqs = length os"
    by (auto dest: list_emb_length list_all2_lengthD)
  moreover have "length ?ops \<le> 6" by (simp add: refresh_ops_def)
  ultimately show ?thesis using w by simp
qed

lemma refresh_requests_witness:
  "\<exists>st'. toy_run [] [''{}'', pending_text] = (Inl (NeedsAuthorizationError ''t1'' []), st')
    \<and> within (toy_session []) st' [''sync'', ''sync'', ''bootstrap'']"
proof -
  obtain st' where r: "toy_run [] [''{}'', pending_text] = (Inl (NeedsAuthorizationError ''t1'' []), st')"
    by (rule toy_pending [of "[]"])
  from refresh_requests [OF this [unfolded toy_run_def]]
  have "within (toy_session []) st' [''sync'', ''sync'', ''bootstrap'']" by (simp add: refresh_ops_def toy_ask_def)
  with r show ?thesis by blast
qed

text \<open>
  A refresh changes no file but the session's two, keeps the client id, the signing key, the
  endpoint and the platform, only ever raises the version it reports, and whatever it leaves in
  the inventory file is what was there or the (written part of the) text of a valid inventory.
\<close>

lemma refresh_evolves:
  assumes "refresh env wait opt st = (r, st')"
  shows "evolves st st'"
  using refresh_step [OF assms] by (simp add: step_def)

lemma refresh_evolves_witness:
  "\<exists>st'. toy_run [] [''{}'', pending_text] = (Inl (NeedsAuthorizationError ''t1'' []), st')
    \<and> evolves (toy_session []) st' \<and> identity_of st' \<noteq> identity_of (toy_session [])"
proof -
  obtain st' where r: "toy_run [] [''{}'', pending_text] = (Inl (NeedsAuthorizationError ''t1'' []), st')"
    and t: "id_ticket (identity_of st') = ''t1''"
    by (rule toy_pending [of "[]"])
  from refresh_evolves [OF r [unfolded toy_run_def]] r t show ?thesis by fastforce
qed

text \<open>
  C6: An inventory that a refresh returns is valid, and it is the one on disk: where the
  inventory has a readable path of its own, loading it gives back exactly what was returned.
\<close>

lemma refresh_ok:
  assumes "refresh env wait opt st = (Inr iv, st')"
  shows "validate iv = Inr () \<and>
    (let p = se_inventory_path (fst st')
     in p \<noteq> [] \<longrightarrow> p \<noteq> se_identity_path (fst st') \<longrightarrow> \<not> fs_refuses (w_fs (snd st')) OpRead p \<longrightarrow>
        load p (w_fs (snd st')) = Inr iv)"
  using refresh_step [OF assms] by (simp add: usable_def stored_def)

lemma refresh_ok_witness:
  "\<exists>st'. toy_run ''t'' [''{}'', access_text sample_inventory (runtime_json zero_inventory)] = (Inr sample_inventory, st')
    \<and> load ''/d/inv.json'' (w_fs (snd st')) = Inr sample_inventory"
proof -
  obtain st' where r: "toy_run ''t'' [''{}'', access_text sample_inventory (runtime_json zero_inventory)]
      = (Inr sample_inventory, st')"
    by (rule toy_redeemed)
  have "evolves (toy_session ''t'') st'" using refresh_step r by (simp add: toy_run_def step_def)
  then have e: "se_inventory_path (fst st') = ''/d/inv.json''" "se_identity_path (fst st') = ''/d/identity.json''"
    "fs_refuses (w_fs (snd st')) = (\<lambda>_ _. False)"
    using toy_session_simps(4,5,6) [of "''t''"] by (simp_all add: evolves_def Let_def toy_disk_def)
  from refresh_ok [OF r [unfolded toy_run_def]] e r show ?thesis by simp
qed

text \<open>
  C17: On a disk that can be written, the identity file holds after a refresh exactly the
  identity in memory, the pending ticket included, whatever the requests answered.
\<close>

lemma refresh_settled:
  assumes "settled st"
  shows "settled (snd (refresh env wait opt st))"
  using assms bootstrap_ticket_utf8 by (rule settled.refresh)

lemma refresh_settled_witness: "settled (snd (toy_run [] [''{}'', pending_text]))"
  unfolding toy_run_def by (rule refresh_settled [OF settled_toy]) simp

text \<open>
  C16: A ticket that a run leaves pending is redeemed by a later one. On a disk that can be
  written, opening the session again gives the same identity and creates none; when sync then
  still fails and the ticket gets a directory, the refresh returns that directory and the ticket
  is gone, in memory and on disk.
\<close>

lemma approval_across_runs:
  assumes "settled st" "refresh env wait opt st = (r, st1)" "id_ticket (identity_of st1) \<noteq> []"
    and "w_fs w2 = w_fs (snd st1)"
  shows "\<exists>s2. open_session rnd gen (se_identity_path (fst st1)) (se_inventory_path (fst st1)) (w_fs w2)
      = (Inr (s2, False), w_fs w2)
    \<and> identity_of (s2, w2) = identity_of st1
    \<and> (\<forall>e st3 iv st4. try_sync env2 (s2, w2) = (Inl e, st3) \<longrightarrow>
         complete env2 (id_ticket (identity_of st1)) st3 = (Inr iv, st4) \<longrightarrow>
         (\<exists>st5. refresh env2 wait2 opt2 (s2, w2) = (Inr iv, st5) \<and> id_ticket (identity_of st5) = []
            \<and> load_identity (se_identity_path (fst st1)) (w_fs (snd st5)) = Inr (identity_of st5)))"
proof -
  let ?s2 = "\<lparr>se_identity_path = se_identity_path (fst st1), se_inventory_path = se_inventory_path (fst st1),
       se_client = new_client (identity_of st1)\<rparr>"
  have i2: "identity_of (?s2, w2) = identity_of st1" by (simp add: identity_of_def new_client_def)
  have "settled (snd (refresh env wait opt st))" using assms(1) bootstrap_ticket_utf8 by (rule settled.refresh)
  then have s1: "settled st1" using assms(2) by simp
  then have s2: "settled (?s2, w2)" using assms(4) i2 by (simp add: settled_def Let_def)
  have o: "open_session rnd gen (se_identity_path (fst st1)) (se_inventory_path (fst st1)) (w_fs w2)
      = (Inr (?s2, False), w_fs w2)"
    using open_settled [OF s2] i2 by simp
  have "\<exists>st5. refresh env2 wait2 opt2 (?s2, w2) = (Inr iv, st5) \<and> id_ticket (identity_of st5) = []
      \<and> load_identity (se_identity_path (fst st1)) (w_fs (snd st5)) = Inr (identity_of st5)"
    if t: "try_sync env2 (?s2, w2) = (Inl e, st3)" and c: "complete env2 (id_ticket (identity_of st1)) st3 = (Inr iv, st4)"
    for e st3 iv st4
  proof (intro exI conjI)
    have "identity_of st3 = identity_of st1" using try_sync_step(2) [OF t] i2 by simp
    then show r: "refresh env2 wait2 opt2 (?s2, w2) = (Inr iv, clear_ticket st4)"
      using t c assms(3) by (simp add: refresh_def redeem_pending_def Let_def)
    show "id_ticket (identity_of (clear_ticket st4)) = []" by (rule clear_ticket_cases)
    have "settled (clear_ticket st4)"
      using settled.refresh [OF s2 bootstrap_ticket_utf8, where env = env2 and wait = wait2 and opt = opt2] r by simp
    moreover have "se_identity_path (fst (clear_ticket st4)) = se_identity_path (fst st1)"
      using refresh_step [OF r] by (simp add: step_def evolves_def Let_def)
    ultimately show "load_identity (se_identity_path (fst st1)) (w_fs (snd (clear_ticket st4)))
        = Inr (identity_of (clear_ticket st4))" by (simp add: settled_def Let_def)
  qed
  with o i2 show ?thesis by (intro exI [of _ ?s2]) blast
qed

lemma approval_across_runs_witness:
  "\<exists>st1 s2 st5. toy_run [] toy_script = (Inl (NeedsAuthorizationError ''t1'' []), st1)
    \<and> open_session (Inl (Errorf [] [])) (Inl (Errorf [] [])) ''/d/identity.json'' ''/d/inv.json'' (w_fs (snd st1))
        = (Inr (s2, False), w_fs (snd st1))
    \<and> refresh (toy_env (toy_srv toy_script)) (\<lambda>_. Inr ()) toy_ask (s2, snd st1) = (Inr sample_inventory, st5)
    \<and> id_ticket (identity_of st5) = []"
proof -
  let ?env = "toy_env (toy_srv toy_script)" and ?none = "Inl (Errorf [] []) :: string result"
  obtain st1 where r: "toy_run [] toy_script = (Inl (NeedsAuthorizationError ''t1'' []), st1)"
    and t: "id_ticket (identity_of st1) = ''t1''" and n: "length (w_sent (snd st1)) = 2"
    and d: "toy_disk (w_fs (snd st1))" and p: "se_inventory_path (fst st1) = ''/d/inv.json''"
      "se_identity_path (fst st1) = ''/d/identity.json''"
    by (rule toy_pending [of "[''{}'', access_text sample_inventory (runtime_json zero_inventory)]", folded toy_script_def])
  have st0: "settled (toy_session [])" by (rule settled_toy) simp
  have "settled (snd (toy_run [] toy_script))"
    unfolding toy_run_def using st0 bootstrap_ticket_utf8 by (rule settled.refresh)
  with r have st1: "settled (fst st1, snd st1)" by simp
  define s2 where "s2 = \<lparr>se_identity_path = ''/d/identity.json'', se_inventory_path = ''/d/inv.json'',
       se_client = new_client (identity_of st1)\<rparr>"
  have o: "open_session ?none ?none ''/d/identity.json'' ''/d/inv.json'' (w_fs (snd st1))
      = (Inr (s2, False), w_fs (snd st1))"
    using open_settled [OF st1, of ?none ?none] p by (simp add: s2_def)
  have ep: "cl_endpoint (se_client s2) = ''https://client-api.nexttun.net/api/v1/client''"
    by (simp add: s2_def new_client_def)
  have nd: "nth_default [] toy_script 2 = ''{}''"
    "nth_default [] toy_script (Suc 2) = access_text sample_inventory (runtime_json zero_inventory)"
    by (simp_all add: toy_script_def numeral_2_eq_2)
  have "served toy_script (s2, snd st1) ''{}''" using n ep by (simp add: nd has_prefix_def)
  then obtain e st3 where 3: "try_sync ?env (s2, snd st1) = (Inl e, st3)" and t3: "turn (s2, snd st1) st3"
    by (rule toy_try_sync)
  have "served toy_script st3 (access_text sample_inventory (runtime_json zero_inventory))"
    using t3 n ep sample_short nd(2) by (simp add: turn_def nd has_prefix_def)
  moreover have "se_inventory_path (fst st3) = ''/d/inv.json''" "toy_disk (w_fs (snd st3))"
    using t3 d by (simp_all add: turn_def s2_def)
  ultimately obtain st4 where 4: "complete ?env ''t1'' st3 = (Inr sample_inventory, st4)"
    by (rule toy_complete)
  from approval_across_runs [OF st0 r [unfolded toy_run_def] _ refl, of ?none ?none ?env "\<lambda>_. Inr ()" toy_ask] t p o 3 4
  have "\<exists>st5. refresh ?env (\<lambda>_. Inr ()) toy_ask (s2, snd st1) = (Inr sample_inventory, st5) \<and> id_ticket (identity_of st5) = []"
    by fastforce
  with r o show ?thesis by blast
qed

end
