(* ===== verification/GoNet.thy ===== *)
theory GoNet
  imports GoStrings "HOL-Library.Log_Nat"
begin

text \<open>
  What the program uses of Go's \<open>net\<close> and \<open>time\<close>: splitting and joining \<open>host:port\<close>, and a
  duration as whole seconds.
\<close>

section \<open>\<open>net.SplitHostPort\<close> and \<open>net.JoinHostPort\<close>\<close>

definition addr_err :: "string \<Rightarrow> string \<Rightarrow> gerr" where
  "addr_err why s = Errorf ''address %s: %s'' [AStr s, AStr why]"

text \<open>At the last colon.\<close>

definition split_last :: "char \<Rightarrow> string \<Rightarrow> (string \<times> string) option" where
  "split_last d s =
     (if d \<in> set s then Some (rev (tl (dropWhile (\<lambda>c. c \<noteq> d) (rev s))), rev (takeWhile (\<lambda>c. c \<noteq> d) (rev s)))
      else None)"

definition split_host_port :: "string \<Rightarrow> (string \<times> string) result" where
  "split_host_port s =
     (case split_last CHR '':'' s of
        None \<Rightarrow> Inl (addr_err ''missing port in address'' s)
      | Some (host, port) \<Rightarrow>
          if has_prefix s ''['' then
            (let before = takeWhile (\<lambda>c. c \<noteq> CHR '']'') s; rest = dropWhile (\<lambda>c. c \<noteq> CHR '']'') s;
                 after = tl rest
             in if rest = [] then Inl (addr_err ''missing ']' in address'' s)
                else if after = [] then Inl (addr_err ''missing port in address'' s)
                else if after = CHR '':'' # port then
                  (if CHR ''['' \<in> set (tl s) then Inl (addr_err ''unexpected '[' in address'' s)
                   else if CHR '']'' \<in> set after then Inl (addr_err ''unexpected ']' in address'' s)
                   else Inr (tl before, port))
                else if has_prefix after '':'' then Inl (addr_err ''too many colons in address'' s)
                else Inl (addr_err ''missing port in address'' s))
          else if CHR '':'' \<in> set host then Inl (addr_err ''too many colons in address'' s)
          else if CHR ''['' \<in> set s then Inl (addr_err ''unexpected '[' in address'' s)
          else if CHR '']'' \<in> set s then Inl (addr_err ''unexpected ']' in address'' s)
          else Inr (host, port))"

definition join_host_port :: "string \<Rightarrow> string \<Rightarrow> string" where
  "join_host_port host port =
     (if CHR '':'' \<in> set host then ''['' @ host @ '']:'' @ port else host @ '':'' @ port)"

lemma at_first:
  "d \<notin> set t \<Longrightarrow> takeWhile (\<lambda>c. c \<noteq> d) (t @ d # r) = t"
  "d \<notin> set t \<Longrightarrow> dropWhile (\<lambda>c. c \<noteq> d) (t @ d # r) = d # r"
  by (induction t) auto

lemma split_last_append [simp]: "d \<notin> set t \<Longrightarrow> split_last d (s @ d # t) = Some (s, t)"
  by (simp add: split_last_def at_first)

text \<open>A host without brackets and a port without separators are read back.\<close>

lemma split_join_host_port:
  assumes "CHR ''['' \<notin> set host" "CHR '']'' \<notin> set host"
    and "CHR '':'' \<notin> set port" "CHR ''['' \<notin> set port" "CHR '']'' \<notin> set port"
  shows "split_host_port (join_host_port host port) = Inr (host, port)"
proof (cases "CHR '':'' \<in> set host")
  case True
  let ?s = "''['' @ host @ '']:'' @ port"
  have b: "takeWhile (\<lambda>c. c \<noteq> CHR '']'') ?s = ''['' @ host" "dropWhile (\<lambda>c. c \<noteq> CHR '']'') ?s = '']:'' @ port"
    using assms(2) by (simp_all add: at_first)
  have "split_last CHR '':'' ?s = Some (''['' @ host @ '']'', port)"
    using split_last_append [OF assms(3), of "''['' @ host @ '']''"] by simp
  with b True assms show ?thesis
    by (simp add: split_host_port_def join_host_port_def has_prefix_def)
next
  case False
  have "\<not> has_prefix (host @ CHR '':'' # port) ''[''"
    using assms(1) by (cases host) (auto simp: has_prefix_def)
  with False assms show ?thesis by (simp add: split_host_port_def join_host_port_def)
qed

section \<open>\<open>net.ParseIP\<close> and \<open>net.IP.String\<close>\<close>

text \<open>Whether a string is an address literal. An IPv4 field has no leading zero.\<close>

definition ip4_field :: "string \<Rightarrow> bool" where
  "ip4_field f \<longleftrightarrow> f \<noteq> [] \<and> list_all is_digit f \<and> (length f > 1 \<longrightarrow> hd f \<noteq> CHR ''0'') \<and> digits_value f \<le> 255"

definition is_ip4 :: "string \<Rightarrow> bool" where
  "is_ip4 s \<longleftrightarrow> (let fs = split_on CHR ''.'' s in length fs = 4 \<and> list_all ip4_field fs)"

definition is_hex :: "char \<Rightarrow> bool" where
  "is_hex c \<longleftrightarrow> is_digit c \<or> (CHR ''a'' \<le> c \<and> c \<le> CHR ''f'') \<or> (CHR ''A'' \<le> c \<and> c \<le> CHR ''F'')"

text \<open>
  The loop of \<open>netip.ParseAddr\<close> over the 16-bit fields from field \<open>i\<close> on; \<open>el\<close> tells whether a
  double colon was seen. The last two fields may be an IPv4 address.
\<close>

function ip6_fields :: "nat \<Rightarrow> bool \<Rightarrow> string \<Rightarrow> bool" where
  "ip6_fields i el s =
     (if i \<ge> 8 then s = [] \<and> \<not> el
      else let f = takeWhile is_hex s; r = drop (length f) s
           in if f = [] \<or> length f > 4 then False
              else if has_prefix r ''.'' then (el \<or> i = 6) \<and> i \<le> 6 \<and> is_ip4 s \<and> (i + 2 < 8 \<longleftrightarrow> el)
              else if r = [] then (Suc i < 8 \<longleftrightarrow> el)
              else if \<not> has_prefix r '':'' \<or> length r = 1 then False
              else if has_prefix r ''::'' then \<not> el \<and> (if length r = 2 then Suc i < 8 else ip6_fields (Suc i) True (drop 2 r))
              else ip6_fields (Suc i) el (tl r))"
  by pat_completeness auto
termination
  by (relation "measure (\<lambda>(i, _, _). 8 - i)") auto

declare ip6_fields.simps [simp del]

definition is_ip6 :: "string \<Rightarrow> bool" where
  "is_ip6 s \<longleftrightarrow> (if has_prefix s ''::'' then length s = 2 \<or> ip6_fields 0 True (drop 2 s) else ip6_fields 0 False s)"

text \<open>The first of \<open>.\<close>, \<open>:\<close> and \<open>%\<close> decides; an address with a zone is refused.\<close>

definition is_ip :: "string \<Rightarrow> bool" where
  "is_ip s \<longleftrightarrow>
     (case find (\<lambda>c. c \<in> {CHR ''.'', CHR '':'', CHR ''%''}) s of
        None \<Rightarrow> False
      | Some c \<Rightarrow> if c = CHR ''.'' then is_ip4 s else c = CHR '':'' \<and> CHR ''%'' \<notin> set s \<and> is_ip6 s)"

text \<open>The text of 4 or 16 address bytes; the first longest run of two or more zero fields is left out.\<close>

fun fields16 :: "string \<Rightarrow> nat list" where
  "fields16 (a # b # s) = (256 * of_char a + of_char b) # fields16 s"
| "fields16 _ = []"

fun hex_text :: "nat \<Rightarrow> string" where
  "hex_text n = (if n < 16 then [hex_digit n] else hex_text (n div 16) @ [hex_digit (n mod 16)])"

declare hex_text.simps [simp del]

definition zero_run :: "nat list \<Rightarrow> nat \<Rightarrow> nat" where
  "zero_run fs i = length (takeWhile (\<lambda>f. f = 0) (drop i fs))"

definition best_run :: "nat list \<Rightarrow> nat \<times> nat" where
  "best_run fs = foldl (\<lambda>(s, l) i. if zero_run fs i \<ge> 2 \<and> zero_run fs i > l then (i, zero_run fs i) else (s, l))
     (0, 0) [0..<length fs]"

definition ip4_text :: "string \<Rightarrow> string" where
  "ip4_text b = join ''.'' (map (\<lambda>c. itoa (int (of_char c))) b)"

definition ip_text :: "string \<Rightarrow> string" where
  "ip_text b =
     (if length b = 4 then ip4_text b
      else if take 12 b = replicate 10 CHR 0x00 @ [CHR 0xFF, CHR 0xFF] then ip4_text (drop 12 b)
      else let fs = fields16 b; (s, l) = best_run fs
           in if l = 0 then join '':'' (map hex_text fs)
              else join '':'' (map hex_text (take s fs)) @ ''::'' @ join '':'' (map hex_text (drop (s + l) fs)))"

section \<open>\<open>int (d.Seconds ())\<close>\<close>

text \<open>
  A duration counts nanoseconds. \<open>Seconds\<close> adds the whole seconds and the fraction as
  float64 and the conversion truncates. Only where the fraction is within half a unit in the
  last place of the next second does that sum round up to it; below \<open>2 ^ 23\<close> seconds it
  never does.
\<close>

definition whole_seconds :: "int \<Rightarrow> int" where
  "whole_seconds d =
     (let s = go_div d 1000000000; frac = \<bar>d\<bar> mod 1000000000
      in if s \<noteq> 0 \<and> (1000000000 - frac) * 2 ^ 53 \<le> 1000000000 * 2 ^ (floorlog 2 (nat \<bar>s\<bar>) - 1)
         then s + sgn d else s)"

lemma whole_seconds_exact:
  assumes "\<bar>d\<bar> < 2 ^ 23 * 1000000000"
  shows "whole_seconds d = go_div d 1000000000"
proof -
  let ?s = "\<bar>d\<bar> div 1000000000"
  have s: "?s < 2 ^ 23" using assms by auto
  have a: "\<bar>go_div d 1000000000\<bar> = ?s" by (cases "d = 0") (simp_all add: go_div_def abs_mult abs_sgn_eq)
  have "floorlog 2 (nat ?s) \<le> 23"
    using s by (intro floorlog_leI) auto
  then have "(2 :: int) ^ (floorlog 2 (nat ?s) - 1) \<le> 2 ^ 22" by (intro power_increasing) auto
  moreover have "\<bar>d\<bar> mod 1000000000 \<le> 999999999" by simp
  ultimately have "\<not> (1000000000 - \<bar>d\<bar> mod 1000000000) * 2 ^ 53 \<le> 1000000000 * 2 ^ (floorlog 2 (nat ?s) - 1)"
    by simp
  then show ?thesis by (simp add: whole_seconds_def Let_def a)
qed

end
