(* ===== verification/Xcfg.thy ===== *)
theory Xcfg
  imports GoNet Inventory
begin

text \<open>
  \<open>internal/xcfg\<close>: the Xray configuration. A Go \<open>map[string]any\<close> is a JSON object with its keys
  in order, which is how \<open>encoding/json\<close> prints it; an \<open>Options\<close> value is a record, and durations
  are nanoseconds. The xray package's \<open>platform.GetAssetLocation\<close>, a function of the
  environment, is a parameter.
\<close>

section \<open>Objects\<close>

definition jmap :: "(string \<times> json) list \<Rightarrow> json" where
  "jmap kvs = JObj (mput_all fst snd kvs [])"

definition jstrs :: "string list \<Rightarrow> json" where
  "jstrs xs = JArr (map JStr xs)"

definition jint :: "int \<Rightarrow> json" where
  "jint i = JNum (itoa i)"

fun jget :: "string \<Rightarrow> json \<Rightarrow> json" where
  "jget k (JObj ms) = (case map_of ms k of Some j \<Rightarrow> j | None \<Rightarrow> JNull)"
| "jget k _ = JNull"

fun jelems :: "json \<Rightarrow> json list" where
  "jelems (JArr xs) = xs"
| "jelems _ = []"

lemma jget_jmap [simp]:
  "jget k (jmap kvs) = (case map_of (rev kvs) k of Some j \<Rightarrow> j | None \<Rightarrow> JNull)"
  by (simp add: jmap_def map_of_mput_all)

section \<open>Routing\<close>

definition route_global :: string where "route_global = ''global''"
definition route_smart :: string where "route_smart = ''smart''"

definition parse_route_mode :: "string \<Rightarrow> string result" where
  "parse_route_mode s =
     (if s = route_global \<or> s = route_smart then Inr s
      else Inl (Errorf ''unknown route mode %q; expected global or smart'' [AStr s]))"

definition geo_files :: "string list" where
  "geo_files = [''geoip.dat'', ''geosite.dat'']"

definition direct_prefixes :: "string list" where
  "direct_prefixes =
     [''0.0.0.0/8'', ''10.0.0.0/8'', ''100.64.0.0/10'', ''127.0.0.0/8'',
      ''169.254.0.0/16'', ''172.16.0.0/12'', ''192.0.0.0/24'', ''192.0.2.0/24'',
      ''192.168.0.0/16'', ''198.18.0.0/15'', ''198.51.100.0/24'', ''203.0.113.0/24'',
      ''224.0.0.0/4'', ''240.0.0.0/4'',
      ''::/128'', ''::1/128'', ''fc00::/7'', ''fe80::/10'', ''ff00::/8'', ''2001:db8::/32'']"

text \<open>
  \<open>cwd\<close> is \<open>os.Getwd\<close>, \<open>setenv\<close> the outcome of \<open>os.Setenv\<close> for a value, \<open>loc v name\<close> the file that
  xray finds for a name when its setting is \<open>v\<close> (\<open>None\<close>: as the process started). The result
  is the directory, the error, and the setting afterwards.
\<close>

definition resolve_assets :: "string result \<Rightarrow> (string \<Rightarrow> unit result) \<Rightarrow> (string option \<Rightarrow> string \<Rightarrow> string)
    \<Rightarrow> string \<Rightarrow> fs \<Rightarrow> string option \<Rightarrow> (string \<times> gerr option) \<times> string option" where
  "resolve_assets cwd setenv loc dir fs v =
     (let found = (\<lambda>v. dir_path (loc v (last geo_files)));
          missing = (\<lambda>v. [n \<leftarrow> geo_files. \<not> is_ok (stat (loc v n) fs)]);
          report = (\<lambda>v. ((found v, if missing v = [] then None
             else Some (Errorf ''missing rule set %s in %s'' [AStr (join '' and '' (missing v)), AStr (found v)])), v))
      in if dir = [] then report v
         else case rbind (abs_path cwd dir) (\<lambda>a. rbind (setenv a) (\<lambda>_. Inr a)) of
                Inl e \<Rightarrow> (([], Some e), v)
              | Inr a \<Rightarrow> report (Some a))"

section \<open>Options\<close>

definition default_mode :: string where "default_mode = ''native''"
definition default_rtt :: string where "default_rtt = ''1rtt''"
definition default_padding :: string where "default_padding = ''100-35-35''"
definition default_flow :: string where "default_flow = ''xtls-rprx-vision''"
definition flow_udp443 :: string where "flow_udp443 = default_flow @ ''-udp443''"
definition flow_none :: string where "flow_none = ''none''"
definition xhttp_path :: string where "xhttp_path = ''/api/v1/sync/''"
definition balancer_tag :: string where "balancer_tag = ''entry-pool''"
definition direct_tag :: string where "direct_tag = ''direct''"
definition ech_resolver :: string where "ech_resolver = ''https://223.5.5.5/dns-query''"

record options =
  xo_listen :: string
  xo_port :: int
  xo_client_id :: string
  xo_logical_host :: string
  xo_key :: string
  xo_entries :: "string list"
  xo_front :: "front_proxy option"
  xo_udp :: bool
  xo_route_mode :: string
  xo_strategy :: string
  xo_mode :: string
  xo_rtt :: string
  xo_padding :: string
  xo_flow :: string
  xo_probe_url :: string
  xo_interval :: int
  xo_timeout :: int
  xo_log_level :: string

definition or_default :: "string \<Rightarrow> string \<Rightarrow> string" where
  "or_default s d = (if s = [] then d else s)"

definition default_flow_of :: "options \<Rightarrow> string" where
  "default_flow_of o1 =
     (let flow = (if xo_flow o1 = [] then default_flow else if xo_flow o1 = flow_none then [] else xo_flow o1)
      in if xo_udp o1 \<and> flow = default_flow then flow_udp443 else flow)"

definition default_timeout_of :: "options \<Rightarrow> int" where
  "default_timeout_of o1 = (if xo_timeout o1 \<le> 0 then 15 * 1000000000 else xo_timeout o1)"

definition default_interval_of :: "options \<Rightarrow> int" where
  "default_interval_of o1 =
     (let timeout = default_timeout_of o1
      in if xo_interval o1 \<le> timeout then wrap64 (4 * timeout) else xo_interval o1)"

definition apply_defaults :: "options \<Rightarrow> options" where
  "apply_defaults o1 = o1\<lparr>
     xo_mode := or_default (xo_mode o1) default_mode,
     xo_rtt := or_default (xo_rtt o1) default_rtt,
     xo_padding := or_default (xo_padding o1) default_padding,
     xo_flow := default_flow_of o1,
     xo_probe_url := or_default (xo_probe_url o1) ''https://connectivitycheck.gstatic.com/generate_204'',
     xo_timeout := default_timeout_of o1,
     xo_interval := default_interval_of o1,
     xo_log_level := or_default (xo_log_level o1) ''warning'',
     xo_route_mode := or_default (xo_route_mode o1) route_global,
     xo_listen := or_default (xo_listen o1) ''127.0.0.1''\<rparr>"

definition validate_options :: "options \<Rightarrow> unit result" where
  "validate_options o1 =
     rbind (rcheck (xo_client_id o1 \<noteq> []) (Errorf ''client id is empty'' [])) (\<lambda>_.
     rbind (rcheck (xo_key o1 \<noteq> []) (Errorf ''encryption key is empty'' [])) (\<lambda>_.
     rbind (rcheck (xo_logical_host o1 \<noteq> []) (Errorf ''logical host is empty'' [])) (\<lambda>_.
     rbind (rcheck (xo_entries o1 \<noteq> []) (Errorf ''no entry address'' [])) (\<lambda>_.
     rcheck (0 < xo_port o1 \<and> xo_port o1 \<le> 65535) (Errorf ''invalid socks port %d'' [AInt (xo_port o1)])))))"

section \<open>Rendering\<close>

definition routing_rules :: "options \<Rightarrow> json list" where
  "routing_rules o1 =
     [jmap [(''type'', JStr ''field''), (''ip'', jstrs direct_prefixes), (''outboundTag'', JStr direct_tag)]]
     @ (if xo_route_mode o1 = route_smart then
          [jmap [(''type'', JStr ''field''), (''domain'', jstrs [''geosite:cn'']), (''outboundTag'', JStr direct_tag)],
           jmap [(''type'', JStr ''field''), (''ip'', jstrs [''geoip:cn'']), (''outboundTag'', JStr direct_tag)]]
        else [])
     @ [jmap [(''type'', JStr ''field''), (''network'', JStr ''tcp,udp''), (''balancerTag'', JStr balancer_tag)]]"

definition direct_outbound :: json where
  "direct_outbound = jmap [(''tag'', JStr direct_tag), (''protocol'', JStr ''freedom''),
     (''settings'', jmap [(''domainStrategy'', JStr ''UseIP'')])]"

definition quoted :: "string \<Rightarrow> string" where
  "quoted s = CHR 0x22 # s @ [CHR 0x22]"

definition browser_headers :: json where
  "browser_headers = jmap (map (\<lambda>(k, v). (k, JStr v))
     [(''Accept'', ''*/*''),
      (''Accept-Language'', ''en-US,en;q=0.9''),
      (''Cache-Control'', ''no-cache''),
      (''Dnt'', ''1''),
      (''Pragma'', ''no-cache''),
      (''Priority'', ''u=1, i''),
      (''Sec-Ch-Ua-Mobile'', ''?0''),
      (''Sec-Ch-Ua-Platform'', quoted ''Windows''),
      (''Sec-Fetch-Dest'', ''empty''),
      (''Sec-Fetch-Mode'', ''cors''),
      (''Sec-Fetch-Site'', ''same-origin''),
      (''Sec-Ch-Ua'', quoted ''Google Chrome'' @ '';v='' @ quoted ''133'' @ '', '' @ quoted ''Chromium'' @ '';v=''
         @ quoted ''133'' @ '', '' @ quoted ''Not_A Brand'' @ '';v='' @ quoted ''24''),
      (''User-Agent'', ''Mozilla/5.0 (Windows NT 10.0; Win64; x64) AppleWebKit/537.36 (KHTML, like Gecko) Chrome/133.0.0.0 Safari/537.36'')])"

definition encryption :: "options \<Rightarrow> string" where
  "encryption o1 = join ''.'' [''mlkem768x25519plus'', xo_mode o1, xo_rtt o1, xo_padding o1, xo_key o1]"

definition entry_outbound :: "options \<Rightarrow> string \<Rightarrow> string \<Rightarrow> json" where
  "entry_outbound o1 tag ip =
     (let stream =
        [(''network'', JStr ''xhttp''), (''security'', JStr ''tls''),
         (''tlsSettings'', jmap
            [(''serverName'', JStr (xo_logical_host o1)), (''alpn'', jstrs [''h2'']),
             (''fingerprint'', JStr ''hellochrome_133''),
             (''echConfigList'', JStr (xo_logical_host o1 @ ''+'' @ ech_resolver))]),
         (''xhttpSettings'', jmap
            [(''host'', JStr (xo_logical_host o1)), (''path'', JStr xhttp_path), (''mode'', JStr ''stream-up''),
             (''headers'', browser_headers),
             (''xPaddingBytes'', JStr ''100-999''), (''xPaddingObfsMode'', JBool True),
             (''xPaddingPlacement'', JStr ''queryInHeader''), (''xPaddingKey'', JStr ''cache''),
             (''xPaddingHeader'', JStr ''Referer''), (''xPaddingMethod'', JStr ''tokenish''),
             (''sessionIDTable'', JStr ''Base62''), (''sessionIDLength'', JStr ''16-24'')])]
        @ (if xo_front o1 \<noteq> None then [(''sockopt'', jmap [(''dialerProxy'', JStr ''front-proxy'')])] else []);
          settings =
        [(''address'', JStr ip), (''port'', jint 443), (''id'', JStr (xo_client_id o1)),
         (''encryption'', JStr (encryption o1))]
        @ (if xo_flow o1 \<noteq> [] then [(''flow'', JStr (xo_flow o1))] else [])
      in jmap [(''tag'', JStr tag), (''protocol'', JStr ''vless''),
               (''settings'', jmap settings), (''streamSettings'', jmap stream)])"

definition split_endpoint :: "string \<Rightarrow> (string \<times> int) result" where
  "split_endpoint endpoint =
     (let s = trim_suffix (trim_prefix (trim_prefix endpoint ''http://'') ''https://'') ''/'';
          wrap = (\<lambda>e. Errorf ''front proxy endpoint %q: %w'' [AStr endpoint, AErr e])
      in rbind (rwrap wrap (split_host_port s)) (\<lambda>(host, portStr).
         case atoi portStr of
           None \<Rightarrow> Inl (wrap (ErrLib ''strconv.Atoi'' portStr))
         | Some port \<Rightarrow> Inr (host, port)))"

definition front_outbound :: "front_proxy \<Rightarrow> json result" where
  "front_outbound fp =
     rbind (split_endpoint (front_endpoint fp)) (\<lambda>(host, port).
     Inr (jmap [(''tag'', JStr ''front-proxy''), (''protocol'', JStr ''http''),
       (''settings'', jmap
          [(''servers'', JArr [jmap [(''address'', JStr host), (''port'', jint port)]]),
           (''headers'', enc_map JStr (front_headers fp))])]))"

definition duration_string :: "int \<Rightarrow> string" where
  "duration_string d = itoa (whole_seconds d) @ ''s''"

definition entry_tag :: "nat \<Rightarrow> string" where
  "entry_tag i = ''entry-'' @ itoa (int i)"

definition entry_outbounds :: "options \<Rightarrow> json list" where
  "entry_outbounds o1 = map (\<lambda>(i, ip). entry_outbound o1 (entry_tag i) ip) (enumerate 0 (xo_entries o1))"

definition config_json :: "options \<Rightarrow> json list \<Rightarrow> json" where
  "config_json o1 outbounds =
     jmap
       [(''log'', jmap [(''loglevel'', JStr (xo_log_level o1))]),
        (''inbounds'', JArr [jmap
           [(''tag'', JStr ''socks-in''), (''listen'', JStr (xo_listen o1)), (''port'', jint (xo_port o1)),
            (''protocol'', JStr ''socks''), (''settings'', jmap [(''udp'', JBool (xo_udp o1))])]]),
        (''outbounds'', JArr outbounds),
        (''routing'', jmap
           ([(''rules'', JArr (routing_rules o1)),
             (''balancers'', JArr [jmap
                [(''tag'', JStr balancer_tag), (''selector'', jstrs [''entry-'']),
                 (''strategy'', jmap [(''type'', JStr ''leastPing'')]),
                 (''fallbackTag'', JStr (entry_tag 0))]])]
            @ (if xo_strategy o1 \<noteq> [] then [(''domainStrategy'', JStr (xo_strategy o1))] else []))),
        (''burstObservatory'', jmap
           [(''subjectSelector'', jstrs [''entry-'']),
            (''pingConfig'', jmap
               [(''destination'', JStr (xo_probe_url o1)), (''interval'', JStr (duration_string (xo_interval o1))),
                (''timeout'', JStr (duration_string (xo_timeout o1))), (''sampling'', jint 1)])])]"

definition build_outbounds :: "options \<Rightarrow> json list result" where
  "build_outbounds o1 =
     (case xo_front o1 of
        None \<Rightarrow> Inr (entry_outbounds o1 @ [direct_outbound])
      | Some fp \<Rightarrow> rbind (front_outbound fp) (\<lambda>f. Inr (entry_outbounds o1 @ [f] @ [direct_outbound])))"

definition build :: "options \<Rightarrow> string result" where
  "build o1 =
     (let o1 = apply_defaults o1
      in rbind (validate_options o1) (\<lambda>_.
         rbind (build_outbounds o1) (\<lambda>outbounds.
         Inr (marshal_indent (config_json o1 outbounds)))))"

end
