(* ===== verification/XcfgProofs.thy ===== *)
theory XcfgProofs
  imports Xcfg GoJsonRoundtrip
begin

text \<open>
  Properties of the rendered configuration: when \<open>Build\<close> succeeds, that its text is read back as
  a configuration whose tags refer to each other as the routing needs, and how the health
  check's durations come out.
\<close>

section \<open>Objects\<close>

lemma set_mput_all: "x \<in> set (mput_all f g xs m) \<Longrightarrow> x \<in> set m \<or> (\<exists>y \<in> set xs. x = (f y, g y))"
proof (induction xs arbitrary: m)
  case (Cons y xs)
  then have "x \<in> set (mput_all f g xs (mput (f y) (g y) m))" by (simp add: mput_all_def)
  with Cons.IH [OF this] show ?case by (auto dest: set_mput)
qed (simp add: mput_all_def)

lemma set_jmap: "list_all (\<lambda>(k, v). P k v) kvs \<Longrightarrow> \<exists>ms. jmap kvs = JObj ms \<and> list_all (\<lambda>(k, v). P k v) ms"
  using set_mput_all [of _ fst snd kvs "[]"] by (fastforce simp: jmap_def list_all_iff)

lemma json_good_jmap [simp]: "list_all (\<lambda>(k, v). valid_utf8 k \<and> json_good v) kvs \<Longrightarrow> json_good (jmap kvs)"
  using set_jmap [of "\<lambda>k v. valid_utf8 k \<and> json_good v" kvs] by (fastforce simp: list_all_iff)

fun shallow :: "nat \<Rightarrow> json \<Rightarrow> bool" where
  "shallow n j = (jdepth j \<le> n)"

declare shallow.simps [simp del]

lemma shallow_leaf [simp]: "shallow n JNull" "shallow n (JBool b)" "shallow n (JNum l)" "shallow n (JStr s)"
  by (simp_all add: shallow.simps)

lemma shallow_JArr [simp]: "shallow (Suc n) (JArr xs) \<longleftrightarrow> list_all (shallow n) xs"
  by (simp add: shallow.simps foldr_max_le list_all_iff)

lemma shallow_jmap [simp]: "list_all (\<lambda>(k, v). shallow n v) kvs \<Longrightarrow> shallow (Suc n) (jmap kvs)"
  using set_jmap [of "\<lambda>_. shallow n" kvs] by (fastforce simp: shallow.simps foldr_max_le list_all_iff)

lemma jint_good [simp]: "in64 i \<Longrightarrow> json_good (jint i)" "shallow n (jint i)"
  by (simp_all add: jint_def atoi_itoa)

lemma jstrs_good [simp]: "json_good (jstrs xs) \<longleftrightarrow> list_all valid_utf8 xs" "shallow (Suc n) (jstrs xs)"
  by (simp_all add: jstrs_def list.pred_map comp_def list_all_iff)

section \<open>The whole text is read back\<close>

definition utf8_options :: "options \<Rightarrow> bool" where
  "utf8_options o1 \<longleftrightarrow> list_all valid_utf8 ([xo_listen o1, xo_client_id o1, xo_logical_host o1, xo_key o1,
       xo_strategy o1, xo_mode o1, xo_rtt o1, xo_padding o1, xo_flow o1, xo_probe_url o1, xo_log_level o1]
       @ xo_entries o1)
     \<and> (case xo_front o1 of None \<Rightarrow> True | Some f \<Rightarrow> utf8_front f) \<and> in64 (xo_timeout o1) \<and> in64 (xo_interval o1)"

lemma itoa_chars: "c \<in> set (itoa i) \<Longrightarrow> is_digit c \<or> c = CHR ''-''"
  using nat_text_digits by (fastforce simp: itoa_def list_all_iff split: if_splits)

lemma itoa_separators: "CHR '':'' \<notin> set (itoa i)" "CHR ''['' \<notin> set (itoa i)" "CHR '']'' \<notin> set (itoa i)"
  by (auto dest!: itoa_chars simp: is_digit_iff)

lemma valid_itoa [simp]: "valid_utf8 (itoa i)"
  by (rule valid_utf8_all_ascii) (auto dest!: itoa_chars simp: is_digit_iff)

lemma apply_defaults_kept [simp]:
  "xo_port (apply_defaults o1) = xo_port o1" "xo_client_id (apply_defaults o1) = xo_client_id o1"
  "xo_logical_host (apply_defaults o1) = xo_logical_host o1" "xo_key (apply_defaults o1) = xo_key o1"
  "xo_entries (apply_defaults o1) = xo_entries o1" "xo_front (apply_defaults o1) = xo_front o1"
  "xo_udp (apply_defaults o1) = xo_udp o1" "xo_strategy (apply_defaults o1) = xo_strategy o1"
  by (simp_all add: apply_defaults_def)

lemma validate_options_ok:
  "validate_options o1 = Inr () \<longleftrightarrow> xo_client_id o1 \<noteq> [] \<and> xo_key o1 \<noteq> [] \<and> xo_logical_host o1 \<noteq> []
     \<and> xo_entries o1 \<noteq> [] \<and> 0 < xo_port o1 \<and> xo_port o1 \<le> 65535"
  by (auto simp: validate_options_def res_simps)

lemma build_Inr:
  "build o1 = Inr text \<longleftrightarrow> validate_options (apply_defaults o1) = Inr ()
     \<and> (\<exists>obs. build_outbounds (apply_defaults o1) = Inr obs \<and> text = marshal_indent (config_json (apply_defaults o1) obs))"
  by (auto simp: build_def Let_def res_simps)

lemma utf8_literals [simp]:
  "valid_utf8 default_mode" "valid_utf8 default_rtt" "valid_utf8 default_padding" "valid_utf8 default_flow"
  "valid_utf8 flow_udp443" "valid_utf8 route_global" "valid_utf8 route_smart" "valid_utf8 balancer_tag"
  "valid_utf8 direct_tag" "valid_utf8 ech_resolver" "valid_utf8 xhttp_path" "list_all valid_utf8 direct_prefixes"
  by (simp_all add: default_mode_def default_rtt_def default_padding_def default_flow_def flow_udp443_def
      route_global_def route_smart_def balancer_tag_def direct_tag_def ech_resolver_def xhttp_path_def direct_prefixes_def)

lemma utf8_defaults: "utf8_options o1 \<Longrightarrow> utf8_options (apply_defaults o1)"
  by (simp add: utf8_options_def apply_defaults_def or_default_def default_flow_of_def default_timeout_of_def
      default_interval_of_def Let_def in64_def [of "15000000000"])

lemma browser_headers_good [simp]: "json_good browser_headers" "shallow (Suc n) browser_headers"
  by (simp_all add: browser_headers_def quoted_def)

lemma routing_rules_good [simp]: "list_all json_good (routing_rules o1)" "list_all (shallow (Suc (Suc n))) (routing_rules o1)"
  by (simp_all add: routing_rules_def)

lemma direct_outbound_good [simp]: "json_good direct_outbound" "shallow (Suc (Suc n)) direct_outbound"
  by (simp_all add: direct_outbound_def)

lemma valid_encryption: "utf8_options o1 \<Longrightarrow> valid_utf8 (encryption o1)"
  by (simp add: utf8_options_def encryption_def valid_utf8_append)

lemma entry_outbound_good:
  assumes "utf8_options o1" "valid_utf8 tag" "valid_utf8 ip"
  shows "json_good (entry_outbound o1 tag ip)" "shallow (Suc (Suc (Suc (Suc n)))) (entry_outbound o1 tag ip)"
  using assms valid_encryption [OF assms(1)] in64_def [of 443]
  by (simp_all add: entry_outbound_def utf8_options_def valid_utf8_append)

lemma in64_atoi: "atoi s = Some v \<Longrightarrow> in64 v"
  by (auto simp: atoi_def in64_def Let_def split: if_splits)

lemma enc_map_good:
  "\<forall>(k, v) \<in> set m. valid_utf8 k \<and> valid_utf8 v \<Longrightarrow> json_good (enc_map JStr m)" "shallow (Suc n) (enc_map JStr m)"
  by (auto simp: enc_map_def list_all_iff shallow.simps foldr_max_le)

text \<open>The host cut out of a valid endpoint is valid.\<close>

lemma valid_utf8_before: "valid_utf8 (a @ c # b) \<Longrightarrow> code c < 128 \<Longrightarrow> valid_utf8 a"
proof (induction a rule: length_induct)
  case (1 a)
  show ?case
  proof (cases a)
    case (Cons x a')
    show ?thesis
    proof (cases "code x < 128")
      case True
      with 1 Cons show ?thesis by auto
    next
      case False
      let ?s = "x # a' @ c # b" let ?n = "utf8_len ?s"
      have n: "?n \<noteq> 0" and v: "valid_utf8 (drop ?n ?s)"
        using "1.prems"(1) Cons by (auto simp: valid_utf8.simps simp del: utf8_len.simps split: if_splits)
      have le: "?n \<le> length a"
      proof (rule ccontr)
        assume "\<not> ?n \<le> length a"
        then have "c \<in> set (take ?n ?s)"
          using Cons in_set_conv_nth [of c "take ?n ?s"] utf8_len_le [of ?s]
          by (auto simp: nth_append intro!: exI [of _ "length a"] simp del: utf8_len.simps)
        with utf8_len_high [of x c "a' @ c # b"] False "1.prems"(2) show False by simp
      qed
      then have "take ?n ?s = take ?n a" using Cons take_append [of ?n a "c # b"] by (simp del: utf8_len.simps)
      then have "utf8_len (take ?n a) = ?n" using utf8_len_take [OF n] by simp
      then have na: "utf8_len a = ?n"
        using utf8_len_append [of "take ?n a" "drop ?n a"] n by simp
      have "valid_utf8 (drop ?n a @ c # b)"
        using v le Cons drop_append [of ?n a "c # b"] by (simp del: utf8_len.simps)
      moreover have "length (drop ?n a) < length a" using n le by (simp del: utf8_len.simps)
      ultimately have "valid_utf8 (drop ?n a)" using "1.IH" "1.prems"(2) by blast
      then show ?thesis using na n Cons by (simp add: valid_utf8.simps del: utf8_len.simps)
    qed
  qed simp
qed

lemma split_last_Some: "split_last d s = Some (a, b) \<Longrightarrow> s = a @ d # b"
proof -
  assume a: "split_last d s = Some (a, b)"
  then have d: "d \<in> set (rev s)" by (auto simp: split_last_def split: if_splits)
  then obtain y ys where y: "dropWhile (\<lambda>c. c \<noteq> d) (rev s) = y # ys" "y = d"
    by (cases "dropWhile (\<lambda>c. c \<noteq> d) (rev s)") (auto simp: dropWhile_eq_Nil_conv dest: hd_dropWhile [of _ "rev s", OF _] dropWhile_eq_Cons_conv [THEN iffD1])
  have "rev s = takeWhile (\<lambda>c. c \<noteq> d) (rev s) @ d # ys"
    using takeWhile_dropWhile_id [of "\<lambda>c. c \<noteq> d" "rev s"] y by simp
  moreover have "b = rev (takeWhile (\<lambda>c. c \<noteq> d) (rev s))" "a = rev ys"
    using a y by (auto simp: split_last_def split: if_splits)
  ultimately show ?thesis by (metis append.assoc append_Cons append_Nil rev_append rev_rev_ident rev.simps)
qed

lemma split_host_port_shape:
  assumes "split_host_port s = Inr (h, p)"
  shows "s = h @ CHR '':'' # p \<or> s = CHR ''['' # h @ CHR '']'' # CHR '':'' # p"
proof -
  obtain a where a: "split_last CHR '':'' s = Some (a, p)" and h: "h = a \<or>
      (has_prefix s ''['' \<and> h = tl (takeWhile (\<lambda>c. c \<noteq> CHR '']'') s) \<and> dropWhile (\<lambda>c. c \<noteq> CHR '']'') s \<noteq> []
        \<and> tl (dropWhile (\<lambda>c. c \<noteq> CHR '']'') s) = CHR '':'' # p)"
    using assms by (auto simp: split_host_port_def Let_def split: option.splits if_splits)
  from h show ?thesis
  proof
    assume "h = a"
    then show ?thesis using split_last_Some [OF a] by simp
  next
    assume b: "has_prefix s ''['' \<and> h = tl (takeWhile (\<lambda>c. c \<noteq> CHR '']'') s) \<and> dropWhile (\<lambda>c. c \<noteq> CHR '']'') s \<noteq> []
        \<and> tl (dropWhile (\<lambda>c. c \<noteq> CHR '']'') s) = CHR '':'' # p"
    then obtain u where s: "s = CHR ''['' # u" by (auto simp: has_prefix_iff prefix_def)
    have "hd (dropWhile (\<lambda>c. c \<noteq> CHR '']'') s) = CHR '']''" using b hd_dropWhile by blast
    then have "dropWhile (\<lambda>c. c \<noteq> CHR '']'') s = CHR '']'' # CHR '':'' # p"
      using b by (cases "dropWhile (\<lambda>c. c \<noteq> CHR '']'') s") auto
    moreover have "takeWhile (\<lambda>c. c \<noteq> CHR '']'') s = CHR ''['' # h" using b s by simp
    ultimately show ?thesis using takeWhile_dropWhile_id [of "\<lambda>c. c \<noteq> CHR '']''" s] by simp
  qed
qed

lemma split_endpoint_utf8:
  assumes "split_endpoint e = Inr (h, p)" "valid_utf8 e"
  shows "valid_utf8 h"
proof -
  define s where "s = trim_prefix (trim_prefix e ''http://'') ''https://''"
  have pre: "valid_utf8 (trim_prefix u q)" if "valid_utf8 u" "valid_utf8 q" for u q
    using that by (auto simp: trim_prefix_def has_prefix_iff prefix_def valid_utf8_append)
  have "valid_utf8 s" unfolding s_def using assms(2) by (intro pre) simp_all
  moreover have "trim_suffix s ''/'' = s \<or> s = trim_suffix s ''/'' @ ''/''"
    by (cases s rule: rev_cases) (auto simp: trim_suffix_def trim_prefix_def has_prefix_def)
  ultimately have v: "valid_utf8 (trim_suffix s ''/'')"
    using valid_utf8_before [of "trim_suffix s ''/''" "CHR ''/''" "[]"] by auto
  obtain q where "split_host_port (trim_suffix s ''/'') = Inr (h, q)"
    using assms(1) by (auto simp: split_endpoint_def Let_def s_def res_simps split: option.splits)
  from split_host_port_shape [OF this] show ?thesis
  proof
    assume "trim_suffix s ''/'' = h @ CHR '':'' # q"
    with v show ?thesis using valid_utf8_before [of h "CHR '':''" q] by simp
  next
    assume "trim_suffix s ''/'' = CHR ''['' # h @ CHR '']'' # CHR '':'' # q"
    with v show ?thesis using valid_utf8_before [of h "CHR '']''" "CHR '':'' # q"] by simp
  qed
qed

lemma front_outbound_good:
  assumes "utf8_front fp" "front_outbound fp = Inr f"
  shows "json_good f" "shallow (Suc (Suc (Suc (Suc n)))) f"
proof -
  obtain h p where hp: "split_endpoint (front_endpoint fp) = Inr (h, p)"
    using assms(2) by (auto simp: front_outbound_def res_simps)
  then have "in64 p" by (auto simp: split_endpoint_def Let_def res_simps in64_atoi split: option.splits)
  then show "json_good f" "shallow (Suc (Suc (Suc (Suc n)))) f"
    using assms split_endpoint_utf8 [OF hp] hp enc_map_good
    by (auto simp: front_outbound_def utf8_front_def)
qed

lemma entry_outbounds_good:
  assumes "utf8_options o1"
  shows "list_all json_good (entry_outbounds o1)" "list_all (shallow (Suc (Suc (Suc (Suc n))))) (entry_outbounds o1)"
  using assms entry_outbound_good [OF assms]
  by (auto simp: entry_outbounds_def list_all_iff utf8_options_def entry_tag_def valid_utf8_append in_set_enumerate_eq)

lemma build_outbounds_good:
  assumes "utf8_options o1" "build_outbounds o1 = Inr obs"
  shows "list_all json_good obs" "list_all (shallow (Suc (Suc (Suc (Suc n))))) obs"
  using assms entry_outbounds_good [OF assms(1)] front_outbound_good
  by (auto simp: build_outbounds_def res_simps utf8_options_def split: option.splits)

lemma config_good:
  assumes "utf8_options o1" "list_all json_good obs" "list_all (shallow (Suc (Suc (Suc (Suc n))))) obs" "in64 (xo_port o1)"
  shows "json_good (config_json o1 obs)" "shallow (Suc (Suc (Suc (Suc (Suc (Suc n)))))) (config_json o1 obs)"
proof -
  have one: "in64 1" by (simp add: in64_def)
  show "json_good (config_json o1 obs)"
    using assms one by (simp add: config_json_def utf8_options_def duration_string_def entry_tag_def valid_utf8_append)
  show "shallow (Suc (Suc (Suc (Suc (Suc (Suc n)))))) (config_json o1 obs)"
    using assms by (simp add: config_json_def)
qed

lemma build_reads_back:
  assumes "utf8_options o1" "in64 (xo_port o1)" "build o1 = Inr text"
  obtains obs where "build_outbounds (apply_defaults o1) = Inr obs"
    "parse_json text = Some (config_json (apply_defaults o1) obs)"
proof -
  obtain obs where obs: "build_outbounds (apply_defaults o1) = Inr obs"
    and tx: "text = marshal_indent (config_json (apply_defaults o1) obs)"
    using assms(3) by (auto simp: build_Inr)
  note u = utf8_defaults [OF assms(1)]
  have "json_good (config_json (apply_defaults o1) obs)" "shallow (Suc (Suc (Suc (Suc (Suc (Suc 0)))))) (config_json (apply_defaults o1) obs)"
    using config_good [OF u build_outbounds_good [OF u obs]] assms(2) by simp_all
  with tx have "parse_json text = Some (config_json (apply_defaults o1) obs)"
    by (simp add: parse_marshal shallow.simps)
  with obs show ?thesis by (rule that)
qed

section \<open>Tags\<close>

definition outbounds_of :: "json \<Rightarrow> json list" where
  "outbounds_of cfg = jelems (jget ''outbounds'' cfg)"

definition rules_of :: "json \<Rightarrow> json list" where
  "rules_of cfg = jelems (jget ''rules'' (jget ''routing'' cfg))"

definition tag_of :: "json \<Rightarrow> string" where
  "tag_of j = (case jget ''tag'' j of JStr t \<Rightarrow> t | _ \<Rightarrow> [])"

lemma config_parts:
  "outbounds_of (config_json o1 obs) = obs" "rules_of (config_json o1 obs) = routing_rules o1"
  "jget ''fallbackTag'' (hd (jelems (jget ''balancers'' (jget ''routing'' (config_json o1 obs))))) = JStr (entry_tag 0)"
  "jget ''pingConfig'' (jget ''burstObservatory'' (config_json o1 obs))
    = jmap [(''destination'', JStr (xo_probe_url o1)), (''interval'', JStr (duration_string (xo_interval o1))),
        (''timeout'', JStr (duration_string (xo_timeout o1))), (''sampling'', jint 1)]"
  by (simp_all add: config_json_def outbounds_of_def rules_of_def)

lemma entry_tag_inject [simp]: "entry_tag i = entry_tag j \<longleftrightarrow> i = j"
  by (simp add: entry_tag_def itoa_def nat_text_inject)

lemma tag_of_entry [simp]: "tag_of (entry_outbound o1 tag ip) = tag"
  by (simp add: entry_outbound_def tag_of_def Let_def)

lemma tags_entries: "map tag_of (entry_outbounds o1) = map entry_tag [0..<length (xo_entries o1)]"
proof -
  have "map tag_of (entry_outbounds o1) = map (entry_tag \<circ> fst) (enumerate 0 (xo_entries o1))"
    by (simp add: entry_outbounds_def comp_def split_def)
  then show ?thesis by (simp flip: map_map)
qed

lemma tags_build:
  assumes "build_outbounds o1 = Inr obs"
  shows "map tag_of obs = map entry_tag [0..<length (xo_entries o1)]
    @ (if xo_front o1 = None then [] else [''front-proxy'']) @ [direct_tag]"
  using assms tags_entries [of o1]
  by (auto simp: build_outbounds_def front_outbound_def direct_outbound_def tag_of_def res_simps split: option.splits)

text \<open>The configuration read back, with its outbounds.\<close>

lemma build_config:
  assumes "utf8_options o1" "build o1 = Inr t"
  obtains obs where "parse_json t = Some (config_json (apply_defaults o1) obs)"
    "build_outbounds (apply_defaults o1) = Inr obs"
    "\<And>i. i < length (xo_entries o1) \<Longrightarrow>
       obs ! i = entry_outbound (apply_defaults o1) (entry_tag i) (xo_entries o1 ! i)"
proof -
  let ?o = "apply_defaults o1"
  have "0 < xo_port o1" "xo_port o1 \<le> 65535"
    using assms(2) by (simp_all add: build_Inr validate_options_ok)
  then have "in64 (xo_port o1)" by (simp add: in64_def)
  from build_reads_back [OF assms(1) this assms(2)] obtain obs
    where obs: "build_outbounds ?o = Inr obs" and p: "parse_json t = Some (config_json ?o obs)" by blast
  have "length (entry_outbounds ?o) = length (xo_entries o1)" by (simp add: entry_outbounds_def)
  then have "obs ! i = entry_outbound ?o (entry_tag i) (xo_entries o1 ! i)" if "i < length (xo_entries o1)" for i
    using obs that
    by (auto simp: build_outbounds_def res_simps nth_append entry_outbounds_def nth_enumerate_eq split: option.splits)
  with p obs show ?thesis by (rule that)
qed

section \<open>Properties\<close>

text \<open>
  C30: \<open>Build\<close> succeeds exactly when client id, key and logical host are set, there is an entry,
  the port is one of 1 to 65535, and the front proxy, where there is one, has a \<open>host:port\<close>
  endpoint; no other option can make it fail.
\<close>

lemma build_ok_iff:
  "is_ok (build o1) \<longleftrightarrow> xo_client_id o1 \<noteq> [] \<and> xo_key o1 \<noteq> [] \<and> xo_logical_host o1 \<noteq> []
     \<and> xo_entries o1 \<noteq> [] \<and> 0 < xo_port o1 \<and> xo_port o1 \<le> 65535
     \<and> (case xo_front o1 of None \<Rightarrow> True | Some fp \<Rightarrow> is_ok (split_endpoint (front_endpoint fp)))"
proof -
  have "is_ok (build_outbounds (apply_defaults o1)) \<longleftrightarrow>
      (case xo_front o1 of None \<Rightarrow> True | Some fp \<Rightarrow> is_ok (split_endpoint (front_endpoint fp)))"
    by (auto simp: build_outbounds_def front_outbound_def is_ok_iff res_simps split: option.split)
  then show ?thesis by (auto simp: is_ok_iff build_Inr validate_options_ok)
qed


text \<open>
  Each entry address gets an outbound of its own with the client's id, the encryption string
  and the logical host as TLS name; it is dialled through the front proxy exactly when there is
  one, and its flow is left out exactly when the option says none, and carries the UDP suffix
  exactly when UDP is on and the flow is the default one.
\<close>

lemma build_entries:
  assumes "utf8_options o1" "build o1 = Inr t" "i < length (xo_entries o1)"
  shows "\<exists>cfg ob. parse_json t = Some cfg \<and> ob = outbounds_of cfg ! i
    \<and> jget ''address'' (jget ''settings'' ob) = JStr (xo_entries o1 ! i)
    \<and> jget ''id'' (jget ''settings'' ob) = JStr (xo_client_id o1)
    \<and> jget ''encryption'' (jget ''settings'' ob) = JStr (encryption (apply_defaults o1))
    \<and> jget ''serverName'' (jget ''tlsSettings'' (jget ''streamSettings'' ob)) = JStr (xo_logical_host o1)
    \<and> jget ''dialerProxy'' (jget ''sockopt'' (jget ''streamSettings'' ob))
        = (if xo_front o1 = None then JNull else JStr ''front-proxy'')
    \<and> jget ''flow'' (jget ''settings'' ob)
        = (if xo_flow o1 = flow_none then JNull
           else if xo_udp o1 \<and> xo_flow o1 \<in> {[], default_flow} then JStr flow_udp443
           else JStr (if xo_flow o1 = [] then default_flow else xo_flow o1))"
proof -
  let ?o = "apply_defaults o1"
  obtain obs where p: "parse_json t = Some (config_json ?o obs)"
    and ob: "obs ! i = entry_outbound ?o (entry_tag i) (xo_entries o1 ! i)"
    using build_config [OF assms(1,2)] assms(3) by metis
  have fl: "xo_flow ?o = default_flow_of o1" by (simp add: apply_defaults_def)
  have n: "flow_none \<noteq> []" "default_flow \<noteq> []" "flow_udp443 \<noteq> []" "flow_none \<noteq> default_flow"
    by (simp_all add: flow_none_def default_flow_def flow_udp443_def)
  show ?thesis
    using p ob n
    by (intro exI [of _ "config_json ?o obs"] exI [of _ "obs ! i"])
      (simp add: config_parts entry_outbound_def fl default_flow_of_def Let_def)
qed

text \<open>An address never begins with a scheme.\<close>

lemma itoa_hd: "itoa p \<noteq> []" "hd (itoa p) \<noteq> CHR ''/''" "last (itoa p) \<noteq> CHR ''/''"
proof -
  have d: "list_all (\<lambda>c. c \<noteq> CHR ''/'') (nat_text n)" for n
    using nat_text_digits [of n] by (auto simp: list_all_iff is_digit_iff)
  show "itoa p \<noteq> []" by (simp add: itoa_def)
  have "list_all (\<lambda>c. c \<noteq> CHR ''/'') (itoa p)" using d by (simp add: itoa_def)
  moreover have "itoa p \<noteq> []" by (simp add: itoa_def)
  ultimately show "hd (itoa p) \<noteq> CHR ''/''" "last (itoa p) \<noteq> CHR ''/''" by (auto simp: list_all_iff)
qed

lemma no_scheme:
  assumes "CHR '':'' \<notin> set w" "w \<noteq> []" "hd w \<noteq> CHR ''[''"
  shows "\<not> has_prefix (join_host_port h (itoa p) @ r) (w @ ''://'')"
proof
  assume *: "has_prefix (join_host_port h (itoa p) @ r) (w @ ''://'')"
  then obtain u where u: "join_host_port h (itoa p) @ r = w @ CHR '':'' # CHR ''/'' # u"
    by (auto simp: has_prefix_iff prefix_def)
  show False
  proof (cases "CHR '':'' \<in> set h")
    case True
    with u assms(2,3) show ?thesis by (cases w) (auto simp: join_host_port_def)
  next
    case False
    then have "h @ CHR '':'' # itoa p @ r = w @ CHR '':'' # CHR ''/'' # u"
      using u by (simp add: join_host_port_def)
    from arg_cong [OF this, of "dropWhile (\<lambda>c. c \<noteq> CHR '':'')"] False assms(1)
    have "itoa p @ r = CHR ''/'' # u" by (simp add: at_first)
    with itoa_hd [of p] show ?thesis by (cases "itoa p") auto
  qed
qed

lemma trim_prefix_not [simp]: "\<not> has_prefix s p \<Longrightarrow> trim_prefix s p = s"
  by (simp add: trim_prefix_def)

lemma trim_slash: "s \<noteq> [] \<Longrightarrow> last s \<noteq> CHR ''/'' \<Longrightarrow> sl \<in> {[], ''/''} \<Longrightarrow> trim_suffix (s @ sl) ''/'' = s"
  by (cases s rule: rev_cases) (auto simp: trim_suffix_def trim_prefix_def has_prefix_def)

text \<open>
  A front proxy's endpoint is read as the address it shows: with or without a scheme and a
  closing slash, a host without brackets (an IPv6 address included) and any 64-bit port come
  back as they were written.
\<close>

lemma split_endpoint_roundtrip:
  assumes "scheme \<in> {[], ''http://'', ''https://''}" "sl \<in> {[], ''/''}"
    and "CHR ''['' \<notin> set h" "CHR '']'' \<notin> set h" "in64 p"
  shows "split_endpoint (scheme @ join_host_port h (itoa p) @ sl) = Inr (h, p)"
proof -
  let ?a = "join_host_port h (itoa p)"
  have n: "\<not> has_prefix (?a @ sl) ''http://''" "\<not> has_prefix (?a @ sl) ''https://''"
    using no_scheme [of "''http''" h p sl] no_scheme [of "''https''" h p sl] by simp_all
  have "trim_prefix (trim_prefix (scheme @ ?a @ sl) ''http://'') ''https://'' = ?a @ sl"
  proof -
    consider "scheme = []" | "scheme = ''http://''" | "scheme = ''https://''" using assms(1) by blast
    then show ?thesis
    proof cases
      case 1
      then show ?thesis using n by simp
    next
      case 2
      show ?thesis by (simp only: 2 trim_prefix_append trim_prefix_not [OF n(2)])
    next
      case 3
      have "\<not> has_prefix (''https://'' @ ?a @ sl) ''http://''" by (simp add: has_prefix_def)
      from trim_prefix_not [OF this] show ?thesis by (simp only: 3 trim_prefix_append)
    qed
  qed
  moreover have "?a \<noteq> []" "last ?a = last (itoa p)" using itoa_hd(1) [of p] by (simp_all add: join_host_port_def)
  then have "trim_suffix (?a @ sl) ''/'' = ?a" using itoa_hd(3) [of p] assms(2) by (intro trim_slash) auto
  moreover have "split_host_port ?a = Inr (h, itoa p)"
    using assms(3,4) itoa_separators [of p] by (intro split_join_host_port) auto
  ultimately show ?thesis using assms(5) by (simp add: split_endpoint_def Let_def atoi_itoa)
qed

lemma split_endpoint_roundtrip_witness:
  "split_endpoint ''https://[2001:db8::1]:8443/'' = Inr (''2001:db8::1'', 8443)"
proof -
  have "itoa 8443 = ''8443''" by (simp add: itoa_def nat_text.simps digit_char_def) code_simp
  then show ?thesis
    using split_endpoint_roundtrip [of "''https://''" "''/''" "''2001:db8::1''" 8443]
    by (simp add: join_host_port_def in64_def)
qed

text \<open>
  C31: The health check's interval is longer than its timeout, as the options promise, whenever
  four times the timeout fits an int64; but both are rendered in whole seconds, so the
  configuration carries an interval that does not exceed the timeout exactly when both lie in
  one second.
\<close>

lemma rendered_timing:
  assumes "xo_timeout o1 < 2 ^ 61"
  shows "0 < xo_timeout (apply_defaults o1) \<and> xo_timeout (apply_defaults o1) < xo_interval (apply_defaults o1)
    \<and> (xo_interval (apply_defaults o1) \<ge> 2 ^ 23 * 1000000000
       \<or> (duration_string (xo_interval (apply_defaults o1)) = duration_string (xo_timeout (apply_defaults o1)) \<longleftrightarrow>
          xo_interval (apply_defaults o1) div 1000000000 = xo_timeout (apply_defaults o1) div 1000000000))"
proof -
  let ?t = "xo_timeout (apply_defaults o1)" and ?i = "xo_interval (apply_defaults o1)"
  have t: "0 < ?t" "?t < 2 ^ 61" using assms by (auto simp: apply_defaults_def default_timeout_of_def)
  then have "wrap64 (4 * ?t) = 4 * ?t" by (intro wrap64_id) (simp add: in64_def)
  with t have ti: "?t < ?i" by (auto simp: apply_defaults_def default_interval_of_def Let_def)
  have "duration_string ?i = duration_string ?t \<longleftrightarrow> ?i div 1000000000 = ?t div 1000000000"
    if "?i < 2 ^ 23 * 1000000000"
  proof -
    have "whole_seconds ?i = ?i div 1000000000" "whole_seconds ?t = ?t div 1000000000"
      using that t ti by (simp_all add: whole_seconds_exact go_div_nonneg)
    moreover have "0 \<le> ?i div 1000000000" "0 \<le> ?t div 1000000000" using t ti by simp_all
    ultimately show ?thesis by (auto simp: duration_string_def itoa_def nat_text_inject eq_nat_nat_iff)
  qed
  with t ti show ?thesis by auto
qed

definition sample_options :: options where
  "sample_options = \<lparr>xo_listen = [], xo_port = 18080, xo_client_id = ''id'', xo_logical_host = ''tyo-01.a.example'',
     xo_key = ''k'', xo_entries = [''192.0.2.1'', ''192.0.2.2''],
     xo_front = Some \<lparr>front_endpoint = ''http://198.51.100.1:443'', front_headers = []\<rparr>, xo_udp = True,
     xo_route_mode = ''smart'', xo_strategy = [], xo_mode = [], xo_rtt = [], xo_padding = [], xo_flow = [],
     xo_probe_url = [], xo_interval = 15900000000, xo_timeout = 15100000000, xo_log_level = []\<rparr>"

lemma sample_endpoint: "split_endpoint ''http://198.51.100.1:443'' = Inr (''198.51.100.1'', 443)"
  by code_simp

lemma utf8_sample_options: "utf8_options sample_options"
  by (simp add: utf8_options_def sample_options_def utf8_front_def in64_def)

lemma sample_builds: "\<exists>t. build sample_options = Inr t"
  by (simp add: build_Inr validate_options_ok build_outbounds_def)
    (simp add: sample_options_def front_outbound_def sample_endpoint)


lemma build_entries_witness:
  "\<exists>t cfg. build sample_options = Inr t \<and> parse_json t = Some cfg
    \<and> jget ''address'' (jget ''settings'' (outbounds_of cfg ! 1)) = JStr ''192.0.2.2''
    \<and> jget ''flow'' (jget ''settings'' (outbounds_of cfg ! 1)) = JStr flow_udp443"
proof -
  obtain t where t: "build sample_options = Inr t" using sample_builds by blast
  have "1 < length (xo_entries sample_options)" by (simp add: sample_options_def)
  from build_entries [OF utf8_sample_options t this] obtain cfg where "parse_json t = Some cfg"
    "jget ''address'' (jget ''settings'' (outbounds_of cfg ! 1)) = JStr (xo_entries sample_options ! 1)"
    "jget ''flow'' (jget ''settings'' (outbounds_of cfg ! 1))
      = (if xo_flow sample_options = flow_none then JNull
         else if xo_udp sample_options \<and> xo_flow sample_options \<in> {[], default_flow} then JStr flow_udp443
         else JStr (if xo_flow sample_options = [] then default_flow else xo_flow sample_options))"
    by blast
  with t show ?thesis by (auto simp: sample_options_def flow_none_def)
qed

lemma rendered_timing_witness:
  "xo_timeout sample_options < xo_interval sample_options
    \<and> duration_string (xo_interval (apply_defaults sample_options)) = duration_string (xo_timeout (apply_defaults sample_options))"
proof -
  have "xo_timeout sample_options < 2 ^ 61" by (simp add: sample_options_def)
  from rendered_timing [OF this] show ?thesis
    by (simp add: sample_options_def apply_defaults_def default_interval_of_def default_timeout_of_def)
qed

end
