(* ===== verification/Probe.thy ===== *)
theory Probe
  imports GoNet
begin

text \<open>
  \<open>internal/probe\<close>: ranking the entry addresses by TCP round-trip time. What the network does is
  the parameter \<open>net i addr\<close>: how dialling the address of the \<open>i\<close>th probe ends, with the elapsed
  nanoseconds when it connects. Every probe runs in its own goroutine; \<open>order\<close> is the order in
  which they finish and store their results.
\<close>

section \<open>Operations\<close>

record probe_result =
  pr_ip :: string
  pr_rtt :: int
  pr_err :: "gerr option"

definition probe_ok :: "probe_result \<Rightarrow> bool" where
  "probe_ok r \<longleftrightarrow> pr_err r = None"

definition dial_probe :: "(nat \<Rightarrow> string \<Rightarrow> int result) \<Rightarrow> nat \<Rightarrow> string \<Rightarrow> int \<Rightarrow> probe_result" where
  "dial_probe net i ip port =
     (case net i (join_host_port ip (itoa port)) of
        Inl e \<Rightarrow> \<lparr>pr_ip = ip, pr_rtt = 0, pr_err = Some e\<rparr>
      | Inr rtt \<Rightarrow> \<lparr>pr_ip = ip, pr_rtt = rtt, pr_err = None\<rparr>)"

definition probe_less :: "probe_result \<Rightarrow> probe_result \<Rightarrow> bool" where
  "probe_less a b = (if probe_ok a \<noteq> probe_ok b then probe_ok a else pr_rtt a < pr_rtt b)"

definition run_probes :: "(nat \<Rightarrow> string \<Rightarrow> int result) \<Rightarrow> nat list \<Rightarrow> string list \<Rightarrow> int \<Rightarrow> probe_result list" where
  "run_probes net order ips port =
     fold (\<lambda>i rs. rs[i := dial_probe net i (ips ! i) port]) order
       (replicate (length ips) \<lparr>pr_ip = [], pr_rtt = 0, pr_err = None\<rparr>)"

definition rank_tcp :: "(nat \<Rightarrow> string \<Rightarrow> int result) \<Rightarrow> nat list \<Rightarrow> string list \<Rightarrow> int \<Rightarrow> probe_result list" where
  "rank_tcp net order ips port = stable_sort probe_less (run_probes net order ips port)"

definition reachable :: "probe_result list \<Rightarrow> string list" where
  "reachable rs = map pr_ip (filter probe_ok rs)"

section \<open>Concurrency and ordering\<close>

text \<open>The goroutines write different slots, so the order in which they finish does not show.\<close>

lemma fold_slots:
  "length rs = length xs \<Longrightarrow> distinct order \<Longrightarrow> set order \<subseteq> {..<length xs} \<Longrightarrow>
   fold (\<lambda>i rs. rs[i := f i (xs ! i)]) order rs
     = map (\<lambda>i. if i \<in> set order then f i (xs ! i) else rs ! i) [0..<length xs]"
proof (induction order arbitrary: rs)
  case Nil
  then show ?case using map_nth [of rs] by simp
next
  case (Cons k order)
  have "fold (\<lambda>i rs. rs[i := f i (xs ! i)]) (k # order) rs
      = map (\<lambda>i. if i \<in> set order then f i (xs ! i) else rs[k := f k (xs ! k)] ! i) [0..<length xs]"
    using Cons.prems by (simp add: Cons.IH)
  also have "\<dots> = map (\<lambda>i. if i \<in> set (k # order) then f i (xs ! i) else rs ! i) [0..<length xs]"
    using Cons.prems by (intro map_cong) (auto simp: nth_list_update)
  finally show ?case .
qed

definition schedule :: "nat \<Rightarrow> nat list \<Rightarrow> bool" where
  "schedule n order \<longleftrightarrow> distinct order \<and> set order = {..<n}"

lemma run_probes_map:
  "schedule (length ips) order \<Longrightarrow>
   run_probes net order ips port = map (\<lambda>i. dial_probe net i (ips ! i) port) [0..<length ips]"
  by (simp add: run_probes_def schedule_def fold_slots [where f = "\<lambda>i ip. dial_probe net i ip port"] atLeast0LessThan)

interpretation probe: strict_weak_order probe_less
  by unfold_locales (auto simp: probe_less_def split: if_splits)

lemma sorted_ok_first:
  "sorted_wrt (\<lambda>a b. \<not> probe_less b a) rs \<Longrightarrow> rs = filter probe_ok rs @ filter (\<lambda>r. \<not> probe_ok r) rs"
proof (induction rs)
  case (Cons r rs)
  show ?case
  proof (cases "probe_ok r")
    case False
    then have "\<not> probe_ok b" if "b \<in> set rs" for b
      using Cons.prems that by (auto simp: probe_less_def)
    then have "filter probe_ok rs = []" by (simp add: filter_empty_conv)
    with False Cons show ?thesis by simp
  qed (use Cons in simp)
qed simp

lemma ranked_class:
  "[r \<leftarrow> rank_tcp net order ips port. probe_ok r \<and> pr_rtt r = rtt]
    = [r \<leftarrow> run_probes net order ips port. probe_ok r \<and> pr_rtt r = rtt]"
proof -
  let ?a = "\<lparr>pr_ip = [], pr_rtt = rtt, pr_err = None\<rparr>"
  have "\<not> probe_less ?a b \<and> \<not> probe_less b ?a \<longleftrightarrow> probe_ok b \<and> pr_rtt b = rtt" for b
    by (auto simp: probe_less_def probe_ok_def)
  with probe.stable_sort_stable [of ?a "run_probes net order ips port"] show ?thesis
    by (simp add: rank_tcp_def)
qed

section \<open>Properties\<close>



end
