(* ===== verification/Engine.thy ===== *)
theory Engine
  imports Prelude
begin

text \<open>
  \<open>internal/engine\<close>: the owner of the running xray instance. Every exported method holds the
  mutex, so each is one step. xray-core is the parameter \<open>xray\<close>: what loading, creating, starting
  and closing answer; instances are numbered as they are created, and \<open>live\<close> is the set of those
  created and not closed, which no field of the engine shows. \<open>now\<close> is the clock.
\<close>

section \<open>State and operations\<close>

record plan =
  pl_host_slug :: string
  pl_host_name :: string
  pl_logical_host :: string
  pl_root_domain :: string
  pl_group_name :: string
  pl_front_proxy :: string
  pl_entries :: "string list"
  pl_udp :: bool
  pl_route_mode :: string
  pl_listen :: string
  pl_port :: int

record engine =
  en_inst :: "nat option"
  en_plan :: "plan option"
  en_started_at :: "int option"
  en_last_err :: "gerr option"
  en_live :: "nat list"
  en_created :: nat

record status =
  st_running :: bool
  st_plan :: "plan option"
  st_started_at :: "int option"
  st_last_error :: "gerr option"

record xray =
  xr_load :: "string \<Rightarrow> unit result"
  xr_new :: "string \<Rightarrow> unit result"
  xr_start :: "nat \<Rightarrow> unit result"
  xr_close :: "nat \<Rightarrow> unit result"

definition new_engine :: engine where
  "new_engine = \<lparr>en_inst = None, en_plan = None, en_started_at = None, en_last_err = None, en_live = [], en_created = 0\<rparr>"

definition close_inst :: "nat \<Rightarrow> engine \<Rightarrow> engine" where
  "close_inst i e = e\<lparr>en_live := filter (\<lambda>j. j \<noteq> i) (en_live e)\<rparr>"

definition stop_locked :: "xray \<Rightarrow> engine \<Rightarrow> unit result \<times> engine" where
  "stop_locked x e =
     (case en_inst e of
        None \<Rightarrow> (Inr (), e)
      | Some i \<Rightarrow> (xr_close x i, (close_inst i e)\<lparr>en_inst := None, en_plan := None, en_started_at := None\<rparr>))"

definition fail_locked :: "gerr \<Rightarrow> engine \<Rightarrow> 'a result \<times> engine" where
  "fail_locked err e = (Inl err, e\<lparr>en_last_err := Some err\<rparr>)"

definition new_inst :: "xray \<Rightarrow> string \<Rightarrow> engine \<Rightarrow> nat result \<times> engine" where
  "new_inst x cfg e =
     (case xr_new x cfg of
        Inl err \<Rightarrow> (Inl err, e)
      | Inr _ \<Rightarrow> (Inr (en_created e), e\<lparr>en_live := en_created e # en_live e, en_created := Suc (en_created e)\<rparr>))"

definition apply_plan :: "xray \<Rightarrow> int \<Rightarrow> plan \<Rightarrow> string \<Rightarrow> engine \<Rightarrow> unit result \<times> engine" where
  "apply_plan x now plan cfg e =
     (let e = snd (stop_locked x e)
      in case xr_load x cfg of
           Inl err \<Rightarrow> fail_locked (Errorf ''load config: %w'' [AErr err]) e
         | Inr _ \<Rightarrow>
             (case new_inst x cfg e of
                (Inl err, e) \<Rightarrow> fail_locked (Errorf ''create instance: %w'' [AErr err]) e
              | (Inr i, e) \<Rightarrow>
                  (case xr_start x i of
                     Inl err \<Rightarrow> fail_locked (Errorf ''start instance: %w'' [AErr err]) (close_inst i e)
                   | Inr _ \<Rightarrow> (Inr (), e\<lparr>en_inst := Some i, en_plan := Some plan,
                                     en_started_at := Some now, en_last_err := None\<rparr>))))"

definition stop_engine :: "xray \<Rightarrow> engine \<Rightarrow> unit result \<times> engine" where
  "stop_engine x e = stop_locked x e"

definition engine_status :: "engine \<Rightarrow> status" where
  "engine_status e = \<lparr>st_running = (en_inst e \<noteq> None), st_plan = en_plan e,
     st_started_at = en_started_at e, st_last_error = en_last_err e\<rparr>"

section \<open>The engine as a state machine\<close>

inductive engine_step :: "xray \<Rightarrow> engine \<Rightarrow> engine \<Rightarrow> bool" for x where
  Apply: "apply_plan x now plan cfg e = (r, e') \<Longrightarrow> engine_step x e e'"
| Stop: "stop_engine x e = (r, e') \<Longrightarrow> engine_step x e e'"

inductive_cases engine_stepE: "engine_step x e e'"

inductive engine_reaches :: "xray \<Rightarrow> engine \<Rightarrow> bool" for x where
  Start: "engine_reaches x new_engine"
| Step: "engine_reaches x e \<Longrightarrow> engine_step x e e' \<Longrightarrow> engine_reaches x e'"

text \<open>
  Exactly the instance the engine shows is live, an instance comes with its plan and start time,
  and no number is used twice.
\<close>

definition engine_ok :: "engine \<Rightarrow> bool" where
  "engine_ok e \<longleftrightarrow> en_live e = (case en_inst e of None \<Rightarrow> [] | Some i \<Rightarrow> [i])
     \<and> (en_inst e = None \<longleftrightarrow> en_plan e = None) \<and> (en_inst e = None \<longleftrightarrow> en_started_at e = None)
     \<and> list_all (\<lambda>i. i < en_created e) (en_live e)
     \<and> (en_inst e = None \<or> en_last_err e = None)"

lemma engine_ok_new: "engine_ok new_engine"
  by (simp add: engine_ok_def new_engine_def)

lemma stop_locked_ok:
  assumes "engine_ok e"
  shows "engine_ok (snd (stop_locked x e))" "en_inst (snd (stop_locked x e)) = None"
    "en_last_err (snd (stop_locked x e)) = en_last_err e" "en_live (snd (stop_locked x e)) = []"
  using assms by (auto simp: stop_locked_def close_inst_def engine_ok_def split: option.splits)

lemma apply_plan_ok:
  assumes "engine_ok e" "apply_plan x now plan cfg e = (r, e')"
  shows "engine_ok e'"
    "case r of Inl err \<Rightarrow> en_inst e' = None \<and> en_last_err e' = Some err
     | Inr _ \<Rightarrow> en_inst e' \<noteq> None \<and> en_plan e' = Some plan \<and> en_started_at e' = Some now \<and> en_last_err e' = None"
proof -
  obtain r0 e1 where e1: "stop_locked x e = (r0, e1)" by fastforce
  have s: "engine_ok e1" "en_inst e1 = None" "en_live e1 = []" "en_plan e1 = None" "en_started_at e1 = None"
    using stop_locked_ok [OF assms(1), of x] e1 by (auto simp: engine_ok_def)
  have "engine_ok e' \<and> (case r of Inl err \<Rightarrow> en_inst e' = None \<and> en_last_err e' = Some err
     | Inr _ \<Rightarrow> en_inst e' \<noteq> None \<and> en_plan e' = Some plan \<and> en_started_at e' = Some now \<and> en_last_err e' = None)"
    using assms(2) s
    by (auto simp: apply_plan_def e1 fail_locked_def new_inst_def close_inst_def engine_ok_def split: sum.splits)
  then show "engine_ok e'"
    "case r of Inl err \<Rightarrow> en_inst e' = None \<and> en_last_err e' = Some err
     | Inr _ \<Rightarrow> en_inst e' \<noteq> None \<and> en_plan e' = Some plan \<and> en_started_at e' = Some now \<and> en_last_err e' = None"
    by blast+
qed

lemma engine_step_ok:
  assumes "engine_step x e e'" "engine_ok e"
  shows "engine_ok e'"
  using assms(1)
proof (rule engine_stepE)
  fix now plan cfg r assume "apply_plan x now plan cfg e = (r, e')"
  with assms(2) show ?thesis by (rule apply_plan_ok)
next
  fix r assume "stop_engine x e = (r, e')"
  then have "e' = snd (stop_locked x e)" by (simp add: stop_engine_def)
  then show ?thesis using stop_locked_ok(1) [OF assms(2)] by simp
qed

lemma engine_reaches_ok: "engine_reaches x e \<Longrightarrow> engine_ok e"
  by (induction rule: engine_reaches.induct) (auto intro: engine_ok_new engine_step_ok)

section \<open>Properties\<close>

text \<open>
  C12: In every state the engine can reach, at most one xray instance is live, and it is the one
  the status shows, with its plan and start time; a status that is not running shows neither,
  and no instance is left behind by a failed or a repeated \<open>Apply\<close>.
\<close>

lemma engine_owns_one:
  assumes "engine_reaches x e"
  shows "en_live e = (case en_inst e of None \<Rightarrow> [] | Some i \<Rightarrow> [i])
    \<and> (st_running (engine_status e) \<longleftrightarrow> st_plan (engine_status e) \<noteq> None)
    \<and> (st_running (engine_status e) \<longleftrightarrow> st_started_at (engine_status e) \<noteq> None)
    \<and> (\<not> st_running (engine_status e) \<or> st_last_error (engine_status e) = None)"
  using engine_reaches_ok [OF assms] by (auto simp: engine_ok_def engine_status_def)

text \<open>
  \<open>Apply\<close> leaves the engine running the new plan with no error shown, or, when loading,
  creating or starting fails, stopped with exactly that error recorded and returned: never with
  the previous configuration.
\<close>

lemma apply_outcome:
  assumes "engine_reaches x e" "apply_plan x now plan cfg e = (r, e')"
  shows "engine_reaches x e' \<and>
    engine_status e' = (case r of
        Inr _ \<Rightarrow> \<lparr>st_running = True, st_plan = Some plan, st_started_at = Some now, st_last_error = None\<rparr>
      | Inl err \<Rightarrow> \<lparr>st_running = False, st_plan = None, st_started_at = None, st_last_error = Some err\<rparr>)"
proof -
  have "engine_reaches x e'" using assms engine_step.Apply engine_reaches.Step by blast
  moreover from this have "engine_ok e'" by (rule engine_reaches_ok)
  ultimately show ?thesis
    using apply_plan_ok(2) [OF engine_reaches_ok [OF assms(1)] assms(2)]
    by (auto simp: engine_status_def engine_ok_def split: sum.splits)
qed

definition toy_plan :: plan where
  "toy_plan = \<lparr>pl_host_slug = ''tyo-01'', pl_host_name = ''tokyo'', pl_logical_host = ''tyo-01.a.example'',
     pl_root_domain = ''a.example'', pl_group_name = ''south'', pl_front_proxy = [], pl_entries = [''192.0.2.1''],
     pl_udp = False, pl_route_mode = ''global'', pl_listen = ''127.0.0.1'', pl_port = 18080\<rparr>"

text \<open>An xray whose second instance does not start.\<close>

definition toy_xray :: xray where
  "toy_xray = \<lparr>xr_load = (\<lambda>_. Inr ()), xr_new = (\<lambda>_. Inr ()),
     xr_start = (\<lambda>i. if i = 1 then Inl (ErrLib ''bind'' []) else Inr ()), xr_close = (\<lambda>_. Inr ())\<rparr>"

definition toy_engine :: engine where
  "toy_engine = snd (apply_plan toy_xray 5 toy_plan [] new_engine)"

lemma toy_engine_reached: "engine_reaches toy_xray toy_engine"
  by (rule engine_reaches.Step [OF engine_reaches.Start engine_step.Apply [of toy_xray 5 toy_plan "[]" new_engine "Inr ()"]])
    (simp add: toy_engine_def, simp add: apply_plan_def toy_xray_def stop_locked_def new_engine_def new_inst_def)

lemma engine_owns_one_witness:
  "en_live toy_engine = [0] \<and> st_plan (engine_status toy_engine) = Some toy_plan"
proof -
  have "en_inst toy_engine = Some 0" "en_plan toy_engine = Some toy_plan"
    by (simp_all add: toy_engine_def apply_plan_def toy_xray_def stop_locked_def new_engine_def new_inst_def)
  with engine_owns_one [OF toy_engine_reached] show ?thesis by (simp add: engine_status_def)
qed

lemma apply_outcome_witness:
  "\<exists>e'. apply_plan toy_xray 9 toy_plan [] toy_engine = (Inl (Errorf ''start instance: %w'' [AErr (ErrLib ''bind'' [])]), e')
    \<and> st_running (engine_status toy_engine) \<and> \<not> st_running (engine_status e') \<and> en_live e' = []"
proof -
  obtain e' where e': "apply_plan toy_xray 9 toy_plan [] toy_engine
      = (Inl (Errorf ''start instance: %w'' [AErr (ErrLib ''bind'' [])]), e')" "st_running (engine_status toy_engine)"
    "en_live e' = []"
    by (simp add: toy_engine_def apply_plan_def toy_xray_def stop_locked_def new_engine_def new_inst_def
        fail_locked_def close_inst_def engine_status_def)
  from apply_outcome [OF toy_engine_reached e'(1)] e' show ?thesis by auto
qed

end
