(* ===== verification/Supervisor.thy ===== *)
theory Supervisor
  imports XcfgProofs Probe Engine StoredDoc Directory
begin

text \<open>
  \<open>internal/supervisor\<close>: from an inventory and the user's choices to a plan and its configuration,
  and its start in the engine. The state is the file system and the log. The environment holds
  \<open>strings.EqualFold\<close>, the random choice, and the network as \<open>Probe\<close> sees it (for a dial
  timeout), with the order in which the probes of a pool of \<open>n\<close> finish.
\<close>

section \<open>Operations\<close>

record sup_options =
  so_listen :: string
  so_port :: int
  so_host_slug :: string
  so_entry_group :: string
  so_root_domain :: string
  so_no_front :: bool
  so_udp :: bool
  so_route_mode :: string
  so_strategy :: string
  so_assets :: string
  so_max_entries :: int
  so_probe_timeout :: int
  so_probe_url :: string
  so_health_interval :: int
  so_health_timeout :: int
  so_mode :: string
  so_rtt :: string
  so_padding :: string
  so_flow :: string
  so_state_path :: string
  so_log_level :: string

record sup_env =
  sv_eqf :: "string \<Rightarrow> string \<Rightarrow> bool"
  sv_pick :: "nat \<Rightarrow> nat"
  sv_net :: "int \<Rightarrow> nat \<Rightarrow> string \<Rightarrow> int result"
  sv_order :: "nat \<Rightarrow> nat list"

record sup_world =
  sw_fs :: fs
  sw_log :: "(string \<times> garg list) list"

definition sup_log :: "string \<Rightarrow> garg list \<Rightarrow> sup_world \<Rightarrow> sup_world" where
  "sup_log fmt args w = w\<lparr>sw_log := sw_log w @ [(fmt, args)]\<rparr>"

text \<open>The persisted state is the root domain.\<close>

definition state_field :: "string field_decoder" where
  "state_field cur key j =
     (if key_is ''root_domain'' key then field_into dec_string (\<lambda>s. s) (\<lambda>v _. v) cur j else (cur, True))"

definition load_state :: "string \<Rightarrow> fs \<Rightarrow> string" where
  "load_state path fs =
     (case read_file path fs of Inl _ \<Rightarrow> [] | Inr data \<Rightarrow> unmarshal_into (dec_struct state_field) [] data)"

definition state_text :: "string \<Rightarrow> string" where
  "state_text rd = marshal_indent (JObj [(''root_domain'', JStr rd)]) @ [CHR 0x0A]"

definition save_state :: "string \<Rightarrow> string \<Rightarrow> fs \<Rightarrow> unit result \<times> fs" where
  "save_state path rd fs = save_text path (state_text rd) fs"

text \<open>\<open>RTT.Round (time.Millisecond)\<close> of a time that is not negative.\<close>

definition round_ms :: "int \<Rightarrow> int" where
  "round_ms d = (let r = d mod 1000000 in if 2 * r < 1000000 then d - r else wrap64 (d + 1000000 - r))"

definition log_probe :: "probe_result \<Rightarrow> sup_world \<Rightarrow> sup_world" where
  "log_probe r w =
     (if probe_ok r then sup_log ''probe %-16s %v'' [AStr (pr_ip r), AInt (round_ms (pr_rtt r))] w
      else sup_log ''probe %-16s unreachable'' [AStr (pr_ip r)] w)"

definition rank_entries :: "sup_env \<Rightarrow> entry_group \<Rightarrow> sup_options \<Rightarrow> sup_world \<Rightarrow> string list result \<times> sup_world" where
  "rank_entries env g so w =
     (let timeout = (if so_probe_timeout so \<le> 0 then 3 * 1000000000 else so_probe_timeout so);
          ips = group_ipv4 g;
          results = rank_tcp (sv_net env timeout) (sv_order env (length ips)) ips 443;
          entries = reachable results
      in if entries = [] then (Inl (Errorf ''no reachable address in entry group %q'' [AStr (group_name g)]), w)
         else (Inr (if so_max_entries so > 0 \<and> int (length entries) > so_max_entries so
                    then take (nat (so_max_entries so)) entries else entries), fold log_probe results w))"

definition keep_root :: "string \<Rightarrow> string \<Rightarrow> string \<Rightarrow> sup_world \<Rightarrow> sup_world" where
  "keep_root path cached rd w =
     (if rd = cached then w
      else case save_state path rd (sw_fs w) of
             (Inr _, fs') \<Rightarrow> w\<lparr>sw_fs := fs'\<rparr>
           | (Inl e, fs') \<Rightarrow> sup_log ''warning: could not persist state to %s: %v'' [AStr path, AErr e] (w\<lparr>sw_fs := fs'\<rparr>))"

definition choose_front :: "entry_group \<Rightarrow> sup_options \<Rightarrow> front_proxy option result" where
  "choose_front g so =
     (if so_no_front so then Inr None
      else case group_front g of
             None \<Rightarrow> Inl (Errorf ''entry group %q has no front proxy; use the direct option to dial the CDN instead''
               [AStr (group_name g)])
           | Some f \<Rightarrow> Inr (Some f))"

definition plan_of :: "sup_options \<Rightarrow> host \<Rightarrow> entry_group \<Rightarrow> string \<Rightarrow> string list \<Rightarrow> front_proxy option \<Rightarrow> plan" where
  "plan_of so host g rd entries front =
     \<lparr>pl_host_slug = host_slug host, pl_host_name = host_name host,
      pl_logical_host = host_slug host @ ''.'' @ rd, pl_root_domain = rd,
      pl_group_name = group_name g,
      pl_front_proxy = (case front of None \<Rightarrow> [] | Some f \<Rightarrow> front_endpoint f),
      pl_entries = entries, pl_udp = so_udp so, pl_route_mode = so_route_mode so,
      pl_listen = so_listen so, pl_port = so_port so\<rparr>"

definition config_options :: "sup_options \<Rightarrow> string \<Rightarrow> string \<Rightarrow> string \<Rightarrow> string list \<Rightarrow> front_proxy option \<Rightarrow> options" where
  "config_options so client logical key entries front =
     \<lparr>xo_listen = so_listen so, xo_port = so_port so, xo_client_id = client, xo_logical_host = logical,
      xo_key = key, xo_entries = entries, xo_front = front, xo_udp = so_udp so,
      xo_route_mode = so_route_mode so, xo_strategy = so_strategy so, xo_mode = so_mode so, xo_rtt = so_rtt so,
      xo_padding = so_padding so, xo_flow = so_flow so, xo_probe_url = so_probe_url so,
      xo_interval = so_health_interval so, xo_timeout = so_health_timeout so, xo_log_level = so_log_level so\<rparr>"

definition warn_udp :: "sup_options \<Rightarrow> sup_world \<Rightarrow> sup_world" where
  "warn_udp so w = (if so_udp so then sup_log
     (''warning: UDP is unlikely to work '' @ [CHR 0xE2, CHR 0x80, CHR 0x94] @ '' this operator's nodes reject Xray mux, ''
      @ ''which Vision requires for UDP. Use socks5h so names resolve over TCP.'') [] w else w)"

definition resolve :: "sup_env \<Rightarrow> inventory \<Rightarrow> sup_options \<Rightarrow> sup_world \<Rightarrow> (plan \<times> string) result \<times> sup_world" where
  "resolve env iv so w =
     wbind (select_host iv (so_host_slug so), w) (\<lambda>host w.
     wbind (normalized_key host, w) (\<lambda>key w.
     wbind (select_group (sv_eqf env) iv (so_entry_group so), w) (\<lambda>g w.
     let cached = load_state (so_state_path so) (sw_fs w)
     in wbind (select_root (sv_pick env) iv (so_root_domain so) cached, w) (\<lambda>rd w.
     wbind (rank_entries env g so (keep_root (so_state_path so) cached rd w)) (\<lambda>entries w.
     wbind (choose_front g so, w) (\<lambda>front w.
     let plan = plan_of so host g rd entries front
     in wbind (build (config_options so (inv_client_id iv) (pl_logical_host plan) key entries front),
               warn_udp so w) (\<lambda>text w.
     (Inr (plan, text), w))))))))"

definition log_plan :: "plan \<Rightarrow> sup_world \<Rightarrow> sup_world" where
  "log_plan p w =
     (let w = sup_log ''exit  %s (%s) via %s'' [AStr (pl_host_slug p), AStr (pl_host_name p), AStr (pl_logical_host p)] w;
          n = AInt (int (length (pl_entries p)));
          w = (if pl_front_proxy p \<noteq> []
               then sup_log ''entry %s via %s, %d addresses'' [AStr (pl_group_name p), AStr (pl_front_proxy p), n] w
               else sup_log ''entry %s direct, %d addresses'' [AStr (pl_group_name p), n] w);
          w = sup_log ''routing %s'' [AStr (pl_route_mode p)] w
      in sup_log ''listening on socks5://%s:%d (%s)''
           [AStr (pl_listen p), AInt (pl_port p), AStr (if pl_udp p then ''tcp+udp'' else ''tcp only'')] w)"

definition start :: "sup_env \<Rightarrow> xray \<Rightarrow> int \<Rightarrow> inventory \<Rightarrow> sup_options \<Rightarrow> sup_world \<times> engine
    \<Rightarrow> plan result \<times> (sup_world \<times> engine)" where
  "start env x now iv so we =
     (case resolve env iv so (fst we) of
        (Inl e, w) \<Rightarrow> (Inl e, (w, snd we))
      | (Inr (plan, text), w) \<Rightarrow>
          (case apply_plan x now plan text (snd we) of
             (Inl e, eng) \<Rightarrow> (Inl e, (w, eng))
           | (Inr _, eng) \<Rightarrow> (Inr plan, (log_plan plan w, eng))))"

section \<open>What a successful resolution decided\<close>

lemma resolve_Inr:
  assumes "resolve env iv so w = (Inr (plan, t), w')"
  obtains host key g rd entries front w1 where
    "select_host iv (so_host_slug so) = Inr host" "normalized_key host = Inr key"
    "select_group (sv_eqf env) iv (so_entry_group so) = Inr g"
    "select_root (sv_pick env) iv (so_root_domain so) (load_state (so_state_path so) (sw_fs w)) = Inr rd"
    "rank_entries env g so (keep_root (so_state_path so) (load_state (so_state_path so) (sw_fs w)) rd w) = (Inr entries, w1)"
    "choose_front g so = Inr front" "plan = plan_of so host g rd entries front"
    "build (config_options so (inv_client_id iv) (pl_logical_host plan) key entries front) = Inr t"
    "w' = warn_udp so w1"
proof -
  note r = assms [unfolded resolve_def Let_def]
  obtain host where 1: "select_host iv (so_host_slug so) = Inr host"
    using r by (cases "select_host iv (so_host_slug so)") simp_all
  obtain key where 2: "normalized_key host = Inr key"
    using r 1 by (cases "normalized_key host") simp_all
  obtain g where 3: "select_group (sv_eqf env) iv (so_entry_group so) = Inr g"
    using r 1 2 by (cases "select_group (sv_eqf env) iv (so_entry_group so)") simp_all
  let ?c = "load_state (so_state_path so) (sw_fs w)"
  obtain rd where 4: "select_root (sv_pick env) iv (so_root_domain so) ?c = Inr rd"
    using r 1 2 3 by (cases "select_root (sv_pick env) iv (so_root_domain so) ?c") simp_all
  obtain r1 w1 where 5: "rank_entries env g so (keep_root (so_state_path so) ?c rd w) = (r1, w1)"
    by (rule prod.exhaust) (rule that)
  obtain entries where 6: "r1 = Inr entries" using r 1 2 3 4 5 by (cases r1) simp_all
  obtain front where 7: "choose_front g so = Inr front"
    using r 1 2 3 4 5 6 by (cases "choose_front g so") simp_all
  let ?p = "plan_of so host g rd entries front"
  obtain t' where 8: "build (config_options so (inv_client_id iv) (pl_logical_host ?p) key entries front) = Inr t'"
    using r 1 2 3 4 5 6 7
    by (cases "build (config_options so (inv_client_id iv) (pl_logical_host ?p) key entries front)") simp_all
  have "plan = ?p" "t = t'" "w' = warn_udp so w1"
    using r 1 2 3 4 5 6 7 8 by simp_all
  with 1 2 3 4 5 6 7 8 show ?thesis by (intro that) simp_all
qed

lemma rank_entries_Inr:
  assumes "rank_entries env g so w = (Inr entries, w')" "schedule (length (group_ipv4 g)) (sv_order env (length (group_ipv4 g)))"
  obtains rs :: "probe_result list" where "entries \<noteq> []" "sw_fs w' = sw_fs w"
    "entries = map pr_ip rs" "sorted_wrt (\<lambda>a b. pr_rtt a \<le> pr_rtt b) rs"
    "\<And>r. r \<in> set rs \<Longrightarrow> \<exists>i timeout. i < length (group_ipv4 g) \<and> group_ipv4 g ! i = pr_ip r
        \<and> sv_net env timeout i (join_host_port (pr_ip r) ''443'') = Inr (pr_rtt r)"
proof -
  define timeout where "timeout = (if so_probe_timeout so \<le> 0 then 3 * 1000000000 else so_probe_timeout so)"
  let ?ips = "group_ipv4 g"
  let ?rs = "rank_tcp (sv_net env timeout) (sv_order env (length ?ips)) ?ips 443"
  have logs: "sw_fs (fold log_probe xs w) = sw_fs w" for xs w
    by (induction xs arbitrary: w) (simp_all add: log_probe_def sup_log_def)
  obtain k where e: "entries = take k (reachable ?rs)" "entries \<noteq> []" and w': "sw_fs w' = sw_fs w"
  proof (cases "so_max_entries so > 0 \<and> int (length (reachable ?rs)) > so_max_entries so")
    case True
    then show ?thesis using assms(1)
      by (intro that [of "nat (so_max_entries so)"]) (auto simp: rank_entries_def Let_def timeout_def logs split: if_splits)
  next
    case False
    then show ?thesis using assms(1)
      by (intro that [of "length (reachable ?rs)"]) (auto simp: rank_entries_def Let_def timeout_def logs split: if_splits)
  qed
  let ?ok = "take k (filter probe_ok ?rs)"
  have "sorted_wrt (\<lambda>a b. \<not> probe_less b a) ?rs" unfolding rank_tcp_def by (rule probe.sorted_stable_sort)
  then have "sorted_wrt (\<lambda>a b. \<not> probe_less b a) ?ok" by (intro sorted_wrt_take sorted_wrt_filter)
  then have srt: "sorted_wrt (\<lambda>a b. pr_rtt a \<le> pr_rtt b) ?ok"
    by (rule sorted_wrt_mono_rel [rotated]) (auto simp: probe_less_def dest!: in_set_takeD)
  have dial: "\<exists>i timeout. i < length ?ips \<and> ?ips ! i = pr_ip r
        \<and> sv_net env timeout i (join_host_port (pr_ip r) ''443'') = Inr (pr_rtt r)" if "r \<in> set ?ok" for r
  proof -
    have "r \<in> set (run_probes (sv_net env timeout) (sv_order env (length ?ips)) ?ips 443)" "probe_ok r"
      using in_set_takeD [OF that] by (simp_all add: rank_tcp_def)
    then obtain i where i: "i < length ?ips" "r = dial_probe (sv_net env timeout) i (?ips ! i) 443" "probe_ok r"
      by (auto simp: run_probes_map [OF assms(2)])
    have "itoa 443 = ''443''" by code_simp
    with i show ?thesis
      by (intro exI [of _ i] exI [of _ timeout]) (auto simp: dial_probe_def probe_ok_def split: sum.splits)
  qed
  show ?thesis
    by (rule that [of ?ok]) (use e w' srt dial in \<open>auto simp: reachable_def take_map\<close>)
qed

text \<open>Where everything printed is UTF-8.\<close>

definition utf8_choices :: "sup_options \<Rightarrow> bool" where
  "utf8_choices so \<longleftrightarrow> list_all valid_utf8 [so_listen so, so_strategy so, so_mode so, so_rtt so, so_padding so,
     so_flow so, so_probe_url so, so_log_level so] \<and> in64 (so_health_interval so) \<and> in64 (so_health_timeout so)"

lemma normalized_key_ascii: "normalized_key h = Inr k \<Longrightarrow> valid_utf8 k"
  unfolding normalized_key_def by (drule first_key_Inr) auto

lemma select_group_member: "select_group eqf iv name = Inr g \<Longrightarrow> g \<in> set (inv_entry_groups iv)"
  by (auto simp: select_group_def find_Some_iff split: if_splits list.splits option.splits)

lemma select_host_member: "select_host iv slug = Inr h \<Longrightarrow> h \<in> set (inv_hosts iv)"
  by (auto simp: select_host_def find_Some_iff split: if_splits option.splits)

lemma select_root_member:
  assumes "select_root pick iv pinned cached = Inr r" "\<And>n. 0 < n \<Longrightarrow> pick n < n"
  shows "r \<in> set (inv_root_domains iv)"
  using assms by (auto simp: select_root_def split: if_splits)

lemma config_utf8:
  assumes "utf8_choices so" "utf8_inventory iv" "normalized_key h = Inr key" "h \<in> set (inv_hosts iv)"
    and "g \<in> set (inv_entry_groups iv)" "rd \<in> set (inv_root_domains iv)" "set entries \<subseteq> set (group_ipv4 g)"
    and "choose_front g so = Inr front"
  shows "utf8_options (config_options so (inv_client_id iv) (host_slug h @ ''.'' @ rd) key entries front)"
proof -
  have "valid_utf8 (host_slug h @ ''.'' @ rd)"
    using assms(2,4,6) by (auto simp: utf8_inventory_def utf8_host_def valid_utf8_append)
  moreover have "list_all valid_utf8 entries" "case front of None \<Rightarrow> True | Some f \<Rightarrow> utf8_front f"
    using assms(2,5,7,8)
    by (auto simp: utf8_inventory_def utf8_group_def list_all_iff choose_front_def split: if_splits option.splits)
  ultimately show ?thesis
    using assms(1,2) normalized_key_ascii [OF assms(3)]
    by (simp add: utf8_options_def config_options_def utf8_choices_def utf8_inventory_def)
qed

section \<open>A concrete run\<close>

definition toy_sup_env :: sup_env where
  "toy_sup_env = \<lparr>sv_eqf = (=), sv_pick = (\<lambda>n. n - 1), sv_net = (\<lambda>_ i _. Inr (int i)), sv_order = (\<lambda>n. [0..<n])\<rparr>"

definition toy_choices :: sup_options where
  "toy_choices = \<lparr>so_listen = [], so_port = 18080, so_host_slug = [], so_entry_group = [], so_root_domain = [],
     so_no_front = True, so_udp = False, so_route_mode = [], so_strategy = [], so_assets = [], so_max_entries = 0,
     so_probe_timeout = 0, so_probe_url = [], so_health_interval = 0, so_health_timeout = 0, so_mode = [], so_rtt = [],
     so_padding = [], so_flow = [], so_state_path = ''/d/state.json'', so_log_level = []\<rparr>"

definition toy_sup_world :: "(string \<times> node) list \<Rightarrow> sup_world" where
  "toy_sup_world ns = \<lparr>sw_fs = plain_fs ns, sw_log = []\<rparr>"

lemma toy_sup_laws: "schedule n (sv_order toy_sup_env n)" "0 < n \<Longrightarrow> sv_pick toy_sup_env n < n" "utf8_choices toy_choices"
  by (auto simp: toy_sup_env_def schedule_def utf8_choices_def toy_choices_def in64_def)

lemma toy_resolves:
  obtains plan t w' where "resolve toy_sup_env sample_inventory toy_choices (toy_sup_world [(''/d'', Dir)]) = (Inr (plan, t), w')"
    "pl_root_domain plan = ''b.example''"
proof -
  let ?w = "toy_sup_world [(''/d'', Dir)]"
  let ?g = "\<lparr>group_name = ''south'', group_ipv4 = [''192.0.2.1''], group_front = None\<rparr>"
  have h: "select_host sample_inventory [] = Inr sample_host"
    by (simp add: select_host_def sample_inventory_def) (simp add: sample_host_def)
  have g: "select_group (=) sample_inventory [] = Inr ?g"
    by (simp add: select_group_def sample_inventory_def)
  have c: "load_state ''/d/state.json'' (sw_fs ?w) = []"
    by (simp add: load_state_def read_file_def toy_sup_world_def plain_fs_def)
  have r: "select_root (\<lambda>n. n - 1) sample_inventory [] [] = Inr ''b.example''"
    by (simp add: select_root_def sample_inventory_def)
  have "reachable (rank_tcp (\<lambda>i _. Inr (int i)) [0] [''192.0.2.1''] 443) = [''192.0.2.1'']" by code_simp
  then have e: "\<exists>w1. rank_entries toy_sup_env ?g toy_choices w = (Inr [''192.0.2.1''], w1)" for w
    by (simp add: rank_entries_def toy_sup_env_def toy_choices_def Let_def)
  obtain w1 where w1: "rank_entries toy_sup_env ?g toy_choices (keep_root ''/d/state.json'' [] ''b.example'' ?w)
      = (Inr [''192.0.2.1''], w1)" using e by blast
  let ?plan = "plan_of toy_choices sample_host ?g ''b.example'' [''192.0.2.1''] None"
  have "\<exists>t. build (config_options toy_choices (inv_client_id sample_inventory) (pl_logical_host ?plan)
      (b64_encode RawURLEncoding key_bytes) [''192.0.2.1''] None) = Inr t"
  proof -
    have "b64_encode RawURLEncoding key_bytes \<noteq> []"
      using length_b64_encode_raw [of RawURLEncoding key_bytes] by (intro notI) simp
    then show ?thesis
      by (simp add: build_Inr validate_options_ok build_outbounds_def config_options_def toy_choices_def
          sample_inventory_def plan_of_def)
  qed
  then obtain t where t: "build (config_options toy_choices (inv_client_id sample_inventory) (pl_logical_host ?plan)
      (b64_encode RawURLEncoding key_bytes) [''192.0.2.1''] None) = Inr t" by blast
  have so: "so_host_slug toy_choices = []" "so_entry_group toy_choices = []" "so_root_domain toy_choices = []"
    "so_state_path toy_choices = ''/d/state.json''" "sv_eqf toy_sup_env = (=)" "sv_pick toy_sup_env = (\<lambda>n. n - 1)"
    "choose_front ?g toy_choices = Inr None"
    by (simp_all add: toy_choices_def toy_sup_env_def choose_front_def)
  have "resolve toy_sup_env sample_inventory toy_choices ?w = (Inr (?plan, t), warn_udp toy_choices w1)"
    by (simp only: resolve_def Let_def so h g c r w1 t sample_host_key wbind_simps)
  then show ?thesis by (rule that) (simp add: plan_of_def)
qed

section \<open>Properties\<close>



lemma state_roundtrip: "valid_utf8 rd \<Longrightarrow> unmarshal (dec_struct state_field) [] (state_text rd) = Inr rd"
  unfolding state_text_def
  by (intro unmarshal_marshal) (auto simp: state_field_def field_into_def)

interpretation state_file: stored_doc state_text "unmarshal (dec_struct state_field) []" valid_utf8
  by unfold_locales (rule state_roundtrip)

lemma load_state_Inr:
  assumes "rbind (read_file path fs) (unmarshal (dec_struct state_field) []) = Inr rd"
  shows "load_state path fs = rd"
proof -
  obtain data where d: "read_file path fs = Inr data" "unmarshal (dec_struct state_field) [] data = Inr rd"
    using assms by (auto simp: res_simps)
  then obtain j where "parse_json data = Some j" "dec_struct state_field [] j = (rd, True)"
    by (auto simp: unmarshal_def split: option.splits prod.splits if_splits)
  with d(1) show ?thesis by (simp add: load_state_def unmarshal_into_def)
qed

text \<open>
  C32: The root domain is kept across restarts. When no root is pinned and the state file can be
  written, every later resolution, with whatever network, random choice, options and inventory,
  uses the root that was chosen, as long as it is in the pool and none is pinned.
\<close>

lemma root_kept_across_restarts:
  assumes "resolve env iv so w = (Inr (plan, t), w')" "utf8_inventory iv" "\<And>n. 0 < n \<Longrightarrow> sv_pick env n < n"
    and "\<And>n. schedule n (sv_order env n)"
    and "fs_refuses (sw_fs w) = (\<lambda>_ _. False)" "fs_room (sw_fs w) (so_state_path so) = None"
    and "fs_nodes (sw_fs w) (dir_path (so_state_path so)) = Some Dir" "fs_nodes (sw_fs w) (so_state_path so) \<noteq> Some Dir"
    and "pl_root_domain plan \<noteq> []" "pl_root_domain plan \<in> set (inv_root_domains iv2)"
    and "so_root_domain so2 = []" "so_state_path so2 = so_state_path so" "sw_fs w2 = sw_fs w'"
    and "resolve env2 iv2 so2 w2 = (Inr (plan2, t2), w2')"
  shows "pl_root_domain plan2 = pl_root_domain plan"
proof (rule resolve_Inr [OF assms(1)])
  fix host key g rd entries front w1
  let ?p = "so_state_path so" let ?c = "load_state ?p (sw_fs w)"
  assume sel: "select_root (sv_pick env) iv (so_root_domain so) ?c = Inr rd"
    and rank: "rank_entries env g so (keep_root ?p ?c rd w) = (Inr entries, w1)"
    and plan: "plan = plan_of so host g rd entries front" and w': "w' = warn_udp so w1"
  have rd: "pl_root_domain plan = rd" by (simp add: plan plan_of_def)
  have fs1: "sw_fs w' = sw_fs (keep_root ?p ?c rd w)"
    using rank_entries_Inr [OF rank assms(4)] by (auto simp: w' warn_udp_def sup_log_def)
  have kept: "load_state ?p (sw_fs w') = rd"
  proof (cases "rd = ?c")
    case True
    then show ?thesis by (simp add: fs1 keep_root_def)
  next
    case False
    have ok: "save_text ?p (state_text rd) (sw_fs w) = (Inr (), snd (save_text ?p (state_text rd) (sw_fs w)))"
      using assms(5-8) by (simp add: save_text_def mkdir_all_def write_file_def)
    have "sw_fs (keep_root ?p ?c rd w) = snd (save_text ?p (state_text rd) (sw_fs w))"
      using False ok by (auto simp: keep_root_def save_state_def split: prod.splits sum.splits)
    moreover have "valid_utf8 rd"
      using select_root_member [OF sel assms(3)] assms(2) by (simp add: utf8_inventory_def)
    ultimately show ?thesis
      using state_file.saved_reads [OF ok] assms(5) by (simp add: fs1 load_state_Inr)
  qed
  show ?thesis
  proof (rule resolve_Inr [OF assms(14)])
    fix host2 key2 g2 rd2 entries2 front2 w12
    assume sel2: "select_root (sv_pick env2) iv2 (so_root_domain so2) (load_state (so_state_path so2) (sw_fs w2)) = Inr rd2"
      and plan2: "plan2 = plan_of so2 host2 g2 rd2 entries2 front2"
    have "rd2 = rd" using sel2 kept assms(9-13) rd by (simp add: select_root_def)
    then show ?thesis using rd by (simp add: plan2 plan_of_def)
  qed
qed

lemma root_kept_across_restarts_witness:
  "\<exists>plan t w'. resolve toy_sup_env sample_inventory toy_choices (toy_sup_world [(''/d'', Dir)]) = (Inr (plan, t), w')
    \<and> (\<forall>pick plan2 t2 w2'.
        resolve (toy_sup_env\<lparr>sv_pick := pick\<rparr>) sample_inventory toy_choices w' = (Inr (plan2, t2), w2') \<longrightarrow>
        pl_root_domain plan2 = ''b.example'')"
proof -
  obtain plan t w' where r: "resolve toy_sup_env sample_inventory toy_choices (toy_sup_world [(''/d'', Dir)]) = (Inr (plan, t), w')"
    and p: "pl_root_domain plan = ''b.example''" by (rule toy_resolves)
  have d: "dir_path ''/d/state.json'' = ''/d''" by code_simp
  have "pl_root_domain plan2 = ''b.example''"
    if "resolve (toy_sup_env\<lparr>sv_pick := pick\<rparr>) sample_inventory toy_choices w' = (Inr (plan2, t2), w2')" for pick plan2 t2 w2'
    unfolding p [symmetric]
    by (rule root_kept_across_restarts [OF r utf8_sample_inventory toy_sup_laws(2,1) _ _ _ _ _ _ _ refl refl that])
      (simp_all add: toy_sup_world_def plain_fs_def toy_choices_def d p, simp add: sample_inventory_def)
  with r show ?thesis by blast
qed

end
