(* ===== verification/Updater.thy ===== *)
theory Updater
  imports InventoryDiff Refresh
begin

text \<open>
  \<open>internal/updater/updater.go\<close>: polling for node changes. The ticker and the context are the list
  of events the select sees: a tick, with whether the context has ended by the time its refresh
  returns, or the context's end. What \<open>OnUpdate\<close> is called with is collected in a list.
\<close>

section \<open>Operations\<close>

datatype watch_event = Tick bool | Cancelled

record watcher =
  wa_session :: "session option"
  wa_interval :: int
  wa_notify :: bool

definition plain_refresh :: refresh_options where
  "plain_refresh = \<lparr>o_auto_approve = False, o_verification_url = []\<rparr>"

definition log_failure :: "gerr \<Rightarrow> st \<Rightarrow> st" where
  "log_failure e st =
     (case as_needs_auth e of
        Some (_, url) \<Rightarrow> session_log ''node refresh needs authorisation; approve at %s'' [AStr url] st
      | None \<Rightarrow> session_log ''node refresh failed: %v'' [AErr e] st)"

definition log_changes :: "changes \<Rightarrow> st \<Rightarrow> st" where
  "log_changes c st =
     session_log ''the running tunnel still uses the previous set; apply it when convenient'' []
       (session_log (''nodes changed '' @ [CHR 0xE2, CHR 0x80, CHR 0x94] @ '' %s'') [AStr (changes_string c)] st)"

text \<open>The calls made, whether the loop has returned, and the session.\<close>

fun watch_loop :: "client_env \<Rightarrow> (int \<Rightarrow> unit result) \<Rightarrow> bool \<Rightarrow> watch_event list \<Rightarrow> inventory \<Rightarrow> st
    \<Rightarrow> ((inventory \<times> changes) list \<times> bool) \<times> st" where
  "watch_loop env wait notify [] cur st = (([], False), st)"
| "watch_loop env wait notify (Cancelled # es) cur st = (([], True), st)"
| "watch_loop env wait notify (Tick ended # es) cur st =
     (case refresh env wait plain_refresh st of
        (Inl e, st) \<Rightarrow>
          if ended then (([], True), st)
          else watch_loop env wait notify es cur (log_failure e st)
      | (Inr next_inv, st) \<Rightarrow>
          (let c = compare_inv (Some cur) (Some next_inv)
           in if changes_empty c then watch_loop env wait notify es next_inv st
              else case watch_loop env wait notify es next_inv (log_changes c st) of
                     ((calls, stopped), st) \<Rightarrow> (((if notify then [(next_inv, c)] else []) @ calls, stopped), st)))"

definition updater_run :: "client_env \<Rightarrow> (int \<Rightarrow> unit result) \<Rightarrow> watcher \<Rightarrow> watch_event list \<Rightarrow> inventory \<Rightarrow> world
    \<Rightarrow> ((inventory \<times> changes) list \<times> bool) \<times> world" where
  "updater_run env wait u es cur w =
     (case wa_session u of
        None \<Rightarrow> (([], True), w)
      | Some s \<Rightarrow>
          if wa_interval u \<le> 0 then (([], True), w)
          else let st = session_log ''watching for node changes every %s'' [AInt (wa_interval u)] (s, w);
                   (r, st) = watch_loop env wait (wa_notify u) es cur st
               in (r, snd st))"

section \<open>What is reported\<close>

text \<open>The non-empty differences along a sequence of inventories.\<close>

fun diffs :: "inventory \<Rightarrow> inventory list \<Rightarrow> (inventory \<times> changes) list" where
  "diffs cur [] = []"
| "diffs cur (n # ns) =
     (let c = compare_inv (Some cur) (Some n) in (if changes_empty c then [] else [(n, c)]) @ diffs n ns)"

definition last_told :: "inventory \<Rightarrow> (inventory \<times> changes) list \<Rightarrow> inventory" where
  "last_told cur calls = (if calls = [] then cur else fst (last calls))"

fun ticks :: "watch_event list \<Rightarrow> nat" where
  "ticks (Tick _ # es) = Suc (ticks es)"
| "ticks _ = 0"

lemma same_view_refl: "same_view p p"
  by (simp add: same_view_def rel_map_of_keys)

lemma rel_map_of_trans:
  "(\<And>a b c. R a b \<Longrightarrow> R b c \<Longrightarrow> R a c) \<Longrightarrow> rel_map_of R p q \<Longrightarrow> rel_map_of R q r \<Longrightarrow> rel_map_of R p r"
  unfolding rel_map_of_def by (metis (no_types, opaque_lifting) option.rel_sel)

lemma same_view_trans: "same_view p q \<Longrightarrow> same_view q r \<Longrightarrow> same_view p r"
  unfolding same_view_def by (elim conjE, intro conjI) (rule rel_map_of_trans, simp, assumption+, simp)+

lemma last_told_view: "same_view (last_told cur (diffs cur ns)) (last (cur # ns))"
proof (induction ns arbitrary: cur)
  case Nil
  show ?case by (simp add: last_told_def same_view_refl)
next
  case (Cons n ns)
  show ?case
  proof (cases "changes_empty (compare_inv (Some cur) (Some n))")
    case True
    have "same_view cur n" using True by (simp add: compare_same_view)
    then show ?thesis
      using Cons [of n] True by (cases "diffs n ns = []") (auto simp: last_told_def intro: same_view_trans)
  next
    case False
    then show ?thesis using Cons [of n] by (auto simp: last_told_def)
  qed
qed

section \<open>A run of the loop\<close>

lemma refresh_plain:
  assumes "refresh env wait plain_refresh st = (r, st')"
  shows "evolves st st'" "\<exists>reqs. w_sent (snd st') = w_sent (snd st) @ reqs \<and> length reqs \<le> 4"
    "r = Inr iv \<Longrightarrow> usable iv"
proof -
  note s = refresh_step [OF assms]
  show "evolves st st'" using s by (simp add: step_def)
  show "\<exists>reqs. w_sent (snd st') = w_sent (snd st) @ reqs \<and> length reqs \<le> 4"
  proof -
    obtain os reqs where "subseq os (refresh_ops (id_ticket (identity_of st) \<noteq> []) False)" "list_all2 is_op os reqs"
      "w_sent (snd st') = w_sent (snd st) @ reqs"
      using s by (auto simp: step_def within_def plain_refresh_def)
    moreover from this have "length reqs \<le> 4"
      by (auto simp: refresh_ops_def dest!: list_emb_length list_all2_lengthD split: if_splits)
    ultimately show ?thesis by blast
  qed
  show "r = Inr iv \<Longrightarrow> usable iv" using s by simp
qed

lemma log_evolves: "evolves st (session_log fmt args st)"
  by (rule evolves_refl) simp_all

lemma log_failure_simps [simp]:
  "evolves st (log_failure e st)" "w_sent (snd (log_failure e st)) = w_sent (snd st)"
  by (auto simp: log_failure_def log_evolves split: option.splits)

lemma log_changes_simps [simp]:
  "evolves st (log_changes c st)" "w_sent (snd (log_changes c st)) = w_sent (snd st)"
  by (auto simp: log_changes_def intro: evolves_trans log_evolves)

text \<open>The inventories fetched, what was said about them, and where the session is afterwards.\<close>

definition watched :: "bool \<Rightarrow> watch_event list \<Rightarrow> inventory \<Rightarrow> st \<Rightarrow> (inventory \<times> changes) list \<Rightarrow> st \<Rightarrow> inventory list \<Rightarrow> bool" where
  "watched notify es cur st calls st' ns \<longleftrightarrow>
     calls = (if notify then diffs cur ns else []) \<and> (\<forall>iv \<in> set ns. usable iv) \<and> length ns \<le> ticks es \<and> evolves st st'
     \<and> (\<exists>reqs. w_sent (snd st') = w_sent (snd st) @ reqs \<and> length reqs \<le> 4 * ticks es)"

lemma watched_step:
  assumes "watched notify es cur' st1 calls st' ns" "evolves st st1" "w_sent (snd st1) = w_sent (snd st) @ reqs" "length reqs \<le> 4"
    and "ns' = pre @ ns" "length pre \<le> 1" "\<forall>iv \<in> set pre. usable iv"
    and "calls' = (if notify then diffs cur ns' else [])"
  shows "watched notify (Tick ended # es) cur st calls' st' ns'"
proof -
  obtain reqs' where r: "w_sent (snd st') = w_sent (snd st1) @ reqs'" "length reqs' \<le> 4 * ticks es"
    using assms(1) by (auto simp: watched_def)
  have "\<exists>r. w_sent (snd st') = w_sent (snd st) @ r \<and> length r \<le> 4 * ticks (Tick ended # es)"
    using r assms(3,4) by (intro exI [of _ "reqs @ reqs'"]) simp
  with assms show ?thesis unfolding watched_def by (auto intro: evolves_trans)
qed

lemma watch_loop_spec:
  assumes "watch_loop env wait notify es cur st = ((calls, stopped), st')"
  shows "\<exists>ns. watched notify es cur st calls st' ns"
    and "Cancelled \<in> set es \<Longrightarrow> stopped"
proof -
  have "(\<exists>ns. watched notify es cur st calls st' ns) \<and> (Cancelled \<in> set es \<longrightarrow> stopped)"
    using assms
  proof (induction es arbitrary: cur st calls)
    case Nil
    then show ?case by (intro conjI exI [of _ "[]"]) (auto simp: watched_def evolves_refl)
  next
    case (Cons ev es)
    show ?case
    proof (cases ev)
      case Cancelled
      then show ?thesis using Cons.prems
        by (intro conjI exI [of _ "[]"]) (auto simp: watched_def evolves_refl)
    next
      case (Tick ended)
      obtain r st1 where r: "refresh env wait plain_refresh st = (r, st1)" by (rule prod.exhaust) (rule that)
      obtain reqs where reqs: "w_sent (snd st1) = w_sent (snd st) @ reqs" "length reqs \<le> 4"
        using refresh_plain(2) [OF r] by blast
      note ev = refresh_plain(1) [OF r]
      show ?thesis
      proof (cases r)
        case (Inl e)
        show ?thesis
        proof (cases ended)
          case True
          with Cons.prems Tick r Inl have "calls = []" "stopped" "st' = st1" by auto
          with ev reqs Tick show ?thesis by (auto simp: watched_def intro!: exI [of _ "[]"])
        next
          case False
          with Cons.prems Tick r Inl
          have "watch_loop env wait notify es cur (log_failure e st1) = ((calls, stopped), st')" by simp
          from Cons.IH [OF this] obtain ns where ns: "watched notify es cur (log_failure e st1) calls st' ns"
            and c: "Cancelled \<in> set es \<longrightarrow> stopped" by blast
          have "watched notify (Tick ended # es) cur st calls st' ns"
            by (rule watched_step [OF ns _ _ reqs(2), where pre = "[]"])
              (use ns ev reqs in \<open>auto simp: watched_def intro: evolves_trans log_failure_simps\<close>)
          with c Tick show ?thesis by auto
        qed
      next
        case (Inr n)
        let ?c = "compare_inv (Some cur) (Some n)"
        let ?st2 = "if changes_empty ?c then st1 else log_changes ?c st1"
        obtain calls2 where w: "watch_loop env wait notify es n ?st2 = ((calls2, stopped), st')"
          and calls: "calls = (if notify \<and> \<not> changes_empty ?c then [(n, ?c)] else []) @ calls2"
          using Cons.prems Tick r Inr by (auto simp: Let_def split: if_splits prod.splits)
        from Cons.IH [OF w] obtain ns where ns: "watched notify es n ?st2 calls2 st' ns"
          and c: "Cancelled \<in> set es \<longrightarrow> stopped" by blast
        have "watched notify (Tick ended # es) cur st calls st' (n # ns)"
          by (rule watched_step [OF ns _ _ reqs(2), where pre = "[n]"])
            (use ns ev reqs calls refresh_plain(3) [OF r Inr] in \<open>auto simp: watched_def Let_def intro: evolves_trans log_changes_simps\<close>)
        with c Tick show ?thesis by auto
      qed
    qed
  qed
  then show "\<exists>ns. watched notify es cur st calls st' ns" "Cancelled \<in> set es \<Longrightarrow> stopped" by simp_all
qed


text \<open>Whatever every step of a session keeps, a run of the loop keeps.\<close>

context session_invariant begin

lemma watch_loop:
  assumes "I st" and boot: "\<And>st boot st'. on_client (bootstrap env) st = (Inr boot, st') \<Longrightarrow> valid_utf8 (boot_ticket boot)"
  shows "I (snd (watch_loop env wait notify es cur st))"
  using assms(1)
proof (induction es arbitrary: cur st)
  case (Cons ev es)
  obtain r st1 where r: "refresh env wait plain_refresh st = (r, st1)" by (rule prod.exhaust) (rule that)
  have "I (snd (refresh env wait plain_refresh st))" by (rule refresh [OF Cons.prems]) (rule boot)
  then have I1: "I st1" using r by simp
  have logs: "I (log_failure e st1)" "I (log_changes c st1)" for e c
    using I1 by (auto simp: log_failure_def log_changes_def intro: logged split: option.splits)
  show ?case
  proof (cases ev)
    case (Tick ended)
    show ?thesis
    proof (cases r)
      case (Inl e)
      then show ?thesis using Tick r I1 Cons.IH [OF logs(1)] by simp
    next
      case (Inr n)
      let ?c = "compare_inv (Some cur) (Some n)"
      have "snd (watch_loop env wait notify (ev # es) cur st)
          = snd (watch_loop env wait notify es n (if changes_empty ?c then st1 else log_changes ?c st1))"
        using Tick r Inr by (simp add: Let_def split_def)
      then show ?thesis using Cons.IH I1 logs(2) by simp
    qed
  qed (use Cons.prems in simp)
qed simp

end

section \<open>Properties\<close>





lemma watch_settled:
  "settled st \<Longrightarrow> settled (snd (watch_loop env wait notify es cur st))"
  by (rule settled.watch_loop, assumption, rule bootstrap_ticket_utf8)

end
