(* ===== verification/Console.thy ===== *)
theory Console
  imports Supervisor Updater
begin

text \<open>
  \<open>internal/console/console.go\<close>: the interactive front end. Its state is the record \<open>console\<close>: the
  inventory, the choices, the engine, the session, the world of the control client (whose files
  and log the supervisor shares), xray's asset variable and what was printed, one entry per
  \<open>Fprintf\<close> (\<open>tabwriter\<close> only aligns columns). The updater's goroutine may install an inventory
  between any two reads: \<open>co_swaps\<close> is what it installs just before each of the coming reads.
  A command ends well, with an error that is printed, or in a run-time panic.
\<close>

section \<open>State\<close>

record console =
  co_inv :: inventory
  co_opts :: sup_options
  co_engine :: engine
  co_session :: "session option"
  co_world :: world
  co_assets :: "string option"
  co_out :: "(string \<times> garg list) list"
  co_swaps :: "inventory option list"

record con_env =
  ev_client :: client_env
  ev_wait :: "int \<Rightarrow> unit result"
  ev_sup :: sup_env
  ev_xray :: xray
  ev_now :: "nat \<Rightarrow> int"
  ev_cwd :: "string result"
  ev_setenv :: "string \<Rightarrow> unit result"
  ev_loc :: "string option \<Rightarrow> string \<Rightarrow> string"

datatype fault = Failed gerr | Crash string

type_synonym 'a cmd = "console \<Rightarrow> (fault + 'a) \<times> console"

definition cbind :: "'a cmd \<Rightarrow> ('a \<Rightarrow> 'b cmd) \<Rightarrow> 'b cmd" where
  "cbind m f = (\<lambda>c. case m c of (Inl e, c) \<Rightarrow> (Inl e, c) | (Inr x, c) \<Rightarrow> f x c)"

definition cret :: "'a \<Rightarrow> 'a cmd" where
  "cret x = (\<lambda>c. (Inr x, c))"

definition cfail :: "gerr \<Rightarrow> 'a cmd" where
  "cfail e = (\<lambda>c. (Inl (Failed e), c))"

definition ccrash :: "string \<Rightarrow> 'a cmd" where
  "ccrash m = (\<lambda>c. (Inl (Crash m), c))"

text \<open>The result of a call, whose panic is the command's.\<close>

definition cres :: "'a result \<Rightarrow> 'a cmd" where
  "cres r = (case r of Inl (Panic m) \<Rightarrow> ccrash m | Inl e \<Rightarrow> cfail e | Inr x \<Rightarrow> cret x)"

definition cmod :: "(console \<Rightarrow> console) \<Rightarrow> unit cmd" where
  "cmod f = (\<lambda>c. (Inr (), f c))"

definition cget :: "(console \<Rightarrow> 'a) \<Rightarrow> 'a cmd" where
  "cget f = (\<lambda>c. (Inr (f c), c))"

definition say :: "string \<Rightarrow> garg list \<Rightarrow> unit cmd" where
  "say fmt args = cmod (\<lambda>c. c\<lparr>co_out := co_out c @ [(fmt, args)]\<rparr>)"

definition nl :: char where "nl = CHR 0x0A"
definition tab :: char where "tab = CHR 0x09"
definition dash :: string where "dash = [CHR 0xE2, CHR 0x80, CHR 0x94]"
definition dots :: string where "dots = [CHR 0xE2, CHR 0x80, CHR 0xA6]"

text \<open>\<open>c.inventory()\<close> and \<open>SetInventory\<close>.\<close>

definition read_inv :: "inventory cmd" where
  "read_inv = (\<lambda>c. case co_swaps c of
       [] \<Rightarrow> (Inr (co_inv c), c)
     | None # r \<Rightarrow> (Inr (co_inv c), c\<lparr>co_swaps := r\<rparr>)
     | Some iv # r \<Rightarrow> (Inr iv, c\<lparr>co_inv := iv, co_swaps := r\<rparr>))"

definition set_inventory :: "inventory \<Rightarrow> unit cmd" where
  "set_inventory iv = cmod (\<lambda>c. c\<lparr>co_inv := iv\<rparr>)"

definition new_console :: "engine \<Rightarrow> inventory \<Rightarrow> sup_options \<Rightarrow> session option \<Rightarrow> world \<Rightarrow> string option
    \<Rightarrow> inventory option list \<Rightarrow> console" where
  "new_console eng iv so s w v swaps = \<lparr>co_inv = iv, co_opts = so, co_engine = eng, co_session = s, co_world = w,
     co_assets = v, co_out = [], co_swaps = swaps\<rparr>"

section \<open>Showing\<close>

definition on_off :: "bool \<Rightarrow> string" where
  "on_off b = (if b then ''on'' else ''off'')"

definition selected :: "bool \<Rightarrow> string" where
  "selected b = (if b then ''*'' else '' '')"

definition console_or_default :: "string \<Rightarrow> string \<Rightarrow> string" where
  "console_or_default v fallback = (if v = [] then fallback else v)"

text \<open>A row of two columns.\<close>

definition row :: "string \<Rightarrow> string \<Rightarrow> garg list \<Rightarrow> unit cmd" where
  "row label fmt args = say (label @ [tab] @ fmt @ [nl]) args"

definition show_plan :: "int \<Rightarrow> plan \<Rightarrow> unit cmd" where
  "show_plan t p =
     cbind (row ''state'' ''running since %s'' [AInt t]) (\<lambda>_.
     cbind (row ''listening'' ''socks5://%s:%d (%s)''
       [AStr (pl_listen p), AInt (pl_port p), AStr (if pl_udp p then ''tcp+udp'' else ''tcp only'')]) (\<lambda>_.
     cbind (row ''exit'' (''%s '' @ dash @ '' %s'') [AStr (pl_host_slug p), AStr (pl_host_name p)]) (\<lambda>_.
     cbind (row ''host name'' ''%s'' [AStr (pl_logical_host p)]) (\<lambda>_.
     cbind (row ''entry'' ''%s'' [AStr (pl_group_name p)]) (\<lambda>_.
     cbind (row ''front proxy'' ''%s'' [AStr (if pl_front_proxy p \<noteq> [] then pl_front_proxy p else ''direct'')]) (\<lambda>_.
     cbind (row ''routing'' ''%s'' [AStr (pl_route_mode p)]) (\<lambda>_.
     case pl_entries p of
       [] \<Rightarrow> ccrash ''index out of range''
     | e # _ \<Rightarrow> row ''pool'' ''%d addresses, best %s'' [AInt (int (length (pl_entries p))), AStr e])))))))"

definition show_selection :: "unit cmd" where
  "show_selection =
     cbind (cget co_opts) (\<lambda>so.
     row ''selection'' ''exit=%s entry=%s udp=%s direct=%s route=%s''
       [AStr (console_or_default (so_host_slug so) ''(first online)''), AStr (console_or_default (so_entry_group so) ''(first)''),
        AStr (on_off (so_udp so)), AStr (on_off (so_no_front so)), AStr (console_or_default (so_route_mode so) ''global'')])"

text \<open>A running engine shows a plan and a start time; a nil plan would be a nil dereference.\<close>

definition show_status :: "unit cmd" where
  "show_status =
     cbind (cget (\<lambda>c. engine_status (co_engine c))) (\<lambda>s.
     cbind (if \<not> st_running s then
              cbind (row ''state'' ''stopped'' []) (\<lambda>_.
              case st_last_error s of None \<Rightarrow> cret () | Some e \<Rightarrow> row ''last error'' ''%s'' [AErr e])
            else case (st_plan s, st_started_at s) of
              (Some p, Some t) \<Rightarrow> show_plan t p
            | _ \<Rightarrow> ccrash ''nil pointer dereference'') (\<lambda>_.
     show_selection))"

section \<open>Commands\<close>

text \<open>A loop that prints one row for each element, with its index.\<close>

fun show_each :: "(nat \<Rightarrow> 'a \<Rightarrow> unit cmd) \<Rightarrow> nat \<Rightarrow> 'a list \<Rightarrow> unit cmd" where
  "show_each f i [] = cret ()"
| "show_each f i (x # xs) = cbind (f i x) (\<lambda>_. show_each f (Suc i) xs)"

definition cmd_status :: "con_env \<Rightarrow> string \<Rightarrow> unit cmd" where
  "cmd_status env arg = show_status"

definition cmd_exits :: "con_env \<Rightarrow> string \<Rightarrow> unit cmd" where
  "cmd_exits env arg =
     cbind read_inv (\<lambda>iv.
     cbind (cget co_opts) (\<lambda>so.
     show_each (\<lambda>i h. say (''%s %2d'' @ [tab] @ ''%s'' @ [tab] @ ''%s'' @ [tab] @ ''%s'' @ [nl])
       [AStr (selected (host_slug h = so_host_slug so)), AInt (int i + 1), AStr (host_slug h), AStr (host_name h),
        AStr (if host_online h then ''online'' else ''offline'')]) 0 (inv_hosts iv)))"

definition cmd_entries :: "con_env \<Rightarrow> string \<Rightarrow> unit cmd" where
  "cmd_entries env arg =
     cbind read_inv (\<lambda>iv.
     cbind (cget co_opts) (\<lambda>so.
     show_each (\<lambda>i g. say (''%s %2d'' @ [tab] @ ''%s'' @ [tab] @ ''%d addresses'' @ [tab] @ ''%s'' @ [nl])
       [AStr (selected (group_name g = so_entry_group so)), AInt (int i + 1), AStr (group_name g),
        AInt (int (length (group_ipv4 g))),
        AStr (case group_front g of None \<Rightarrow> ''no front proxy'' | Some f \<Rightarrow> front_endpoint f)]) 0 (inv_entry_groups iv)))"

text \<open>
  An argument that is a number is replaced by the name of that element: the bound is checked
  against one read of the inventory, the element taken from another.
\<close>

definition by_number :: "(inventory \<Rightarrow> 'a list) \<Rightarrow> ('a \<Rightarrow> string) \<Rightarrow> string \<Rightarrow> string \<Rightarrow> string cmd" where
  "by_number items name_of message arg =
     (case atoi arg of
        None \<Rightarrow> cret arg
      | Some n \<Rightarrow>
          let bad = cfail (Errorf message [AInt n])
          in if n < 1 then bad
             else cbind read_inv (\<lambda>iv.
                  if n > int (length (items iv)) then bad
                  else cbind read_inv (\<lambda>iv.
                       if nat n - 1 < length (items iv) then cret (name_of (items iv ! (nat n - 1)))
                       else ccrash ''index out of range'')))"

definition cmd_set_exit :: "con_env \<Rightarrow> string \<Rightarrow> unit cmd" where
  "cmd_set_exit env arg =
     (if arg = [] then cfail (Errorf ''usage: exit <slug|#>'' [])
      else cbind (by_number inv_hosts host_slug (''no exit number %d; try '' @ dquote ''exits'') arg) (\<lambda>arg.
           cbind read_inv (\<lambda>iv.
           cbind (cres (select_host iv arg)) (\<lambda>h.
           cbind (cmod (\<lambda>c. c\<lparr>co_opts := (co_opts c)\<lparr>so_host_slug := host_slug h\<rparr>\<rparr>)) (\<lambda>_.
           say (''exit set to %s '' @ dash @ '' %s. Run '' @ dquote ''start'' @ '' to apply.'' @ [nl])
             [AStr (host_slug h), AStr (host_name h)])))))"

definition cmd_set_entry :: "con_env \<Rightarrow> string \<Rightarrow> unit cmd" where
  "cmd_set_entry env arg =
     (if arg = [] then cfail (Errorf ''usage: entry <name|#>'' [])
      else cbind (by_number inv_entry_groups group_name (''no entry number %d; try '' @ dquote ''entries'') arg) (\<lambda>arg.
           cbind read_inv (\<lambda>iv.
           cbind (cres (select_group (sv_eqf (ev_sup env)) iv arg)) (\<lambda>g.
           cbind (cmod (\<lambda>c. c\<lparr>co_opts := (co_opts c)\<lparr>so_entry_group := group_name g\<rparr>\<rparr>)) (\<lambda>_.
           say (''entry set to %s. Run '' @ dquote ''start'' @ '' to apply.'' @ [nl]) [AStr (group_name g)])))))"

definition parse_toggle :: "string \<Rightarrow> bool \<Rightarrow> bool result" where
  "parse_toggle arg cur =
     (let a = to_lower arg
      in if a \<in> {''on'', ''yes'', ''true'', ''1''} then Inr True
         else if a \<in> {''off'', ''no'', ''false'', ''0''} then Inr False
         else if a \<in> {[], ''toggle''} then Inr (\<not> cur)
         else Inl (Errorf ''expected on or off, got %q'' [AStr arg]))"

definition cmd_udp :: "con_env \<Rightarrow> string \<Rightarrow> unit cmd" where
  "cmd_udp env arg =
     cbind (cget co_opts) (\<lambda>so.
     cbind (cres (parse_toggle arg (so_udp so))) (\<lambda>on.
     cbind (cmod (\<lambda>c. c\<lparr>co_opts := (co_opts c)\<lparr>so_udp := on\<rparr>\<rparr>)) (\<lambda>_.
     say (''udp %s. Run '' @ dquote ''start'' @ '' to apply.'' @ [nl]) [AStr (on_off on)])))"

definition cmd_direct :: "con_env \<Rightarrow> string \<Rightarrow> unit cmd" where
  "cmd_direct env arg =
     cbind (cget co_opts) (\<lambda>so.
     cbind (cres (parse_toggle arg (so_no_front so))) (\<lambda>on.
     cbind (cmod (\<lambda>c. c\<lparr>co_opts := (co_opts c)\<lparr>so_no_front := on\<rparr>\<rparr>)) (\<lambda>_.
     say (''front proxy %s. Run '' @ dquote ''start'' @ '' to apply.'' @ [nl])
       [AStr (if on then ''bypassed'' else ''in use'')])))"

text \<open>\<open>ResolveAssets\<close> sets xray's variable whether or not it finds the files.\<close>

definition console_assets :: "con_env \<Rightarrow> unit cmd" where
  "console_assets env = (\<lambda>c.
     case resolve_assets (ev_cwd env) (ev_setenv env) (ev_loc env) (so_assets (co_opts c)) (w_fs (co_world c)) (co_assets c) of
       ((_, None), v) \<Rightarrow> (Inr (), c\<lparr>co_assets := v\<rparr>)
     | ((_, Some e), v) \<Rightarrow> (Inl (Failed (Errorf ''smart routing needs the rule sets: %w'' [AErr e])), c\<lparr>co_assets := v\<rparr>))"

definition cmd_route :: "con_env \<Rightarrow> string \<Rightarrow> unit cmd" where
  "cmd_route env arg =
     (if arg = [] then cfail (Errorf ''usage: route global|smart'' [])
      else cbind (cres (parse_route_mode arg)) (\<lambda>mode.
           cbind (if mode = route_smart then console_assets env else cret ()) (\<lambda>_.
           cbind (cmod (\<lambda>c. c\<lparr>co_opts := (co_opts c)\<lparr>so_route_mode := mode\<rparr>\<rparr>)) (\<lambda>_.
           say (''routing set to %s. Run '' @ dquote ''start'' @ '' to apply.'' @ [nl]) [AStr mode]))))"


text \<open>\<open>supervisor.Start\<close> on the console's files, log and engine.\<close>

definition console_start :: "con_env \<Rightarrow> inventory \<Rightarrow> plan cmd" where
  "console_start env iv = (\<lambda>c.
     let w = co_world c;
         (r, (sw, eng)) = start (ev_sup env) (ev_xray env) (ev_now env (en_created (co_engine c))) iv (co_opts c)
           (\<lparr>sw_fs = w_fs w, sw_log = w_log w\<rparr>, co_engine c)
     in cres r (c\<lparr>co_world := w\<lparr>w_fs := sw_fs sw, w_log := sw_log sw\<rparr>, co_engine := eng\<rparr>))"

definition cmd_start :: "con_env \<Rightarrow> string \<Rightarrow> unit cmd" where
  "cmd_start env arg =
     cbind (say (''probing entry pool'' @ dots @ [nl]) []) (\<lambda>_.
     cbind read_inv (\<lambda>iv.
     cbind (console_start env iv) (\<lambda>_.
     show_status)))"

definition cmd_stop :: "con_env \<Rightarrow> string \<Rightarrow> unit cmd" where
  "cmd_stop env arg =
     cbind (\<lambda>c. let (r, eng) = stop_engine (ev_xray env) (co_engine c)
                in ((case r of Inl e \<Rightarrow> Inl (Failed e) | Inr u \<Rightarrow> Inr u), c\<lparr>co_engine := eng\<rparr>)) (\<lambda>_.
     say (''stopped'' @ [nl]) [])"

text \<open>\<open>Session.Refresh\<close>: an error it returns is a value, never a panic.\<close>

definition console_refresh :: "con_env \<Rightarrow> session \<Rightarrow> (inventory result) cmd" where
  "console_refresh env s = (\<lambda>c.
     let (r, st) = refresh (ev_client env) (ev_wait env) plain_refresh (s, co_world c)
     in (Inr r, c\<lparr>co_session := Some (fst st), co_world := snd st\<rparr>))"

definition cmd_refresh :: "con_env \<Rightarrow> string \<Rightarrow> unit cmd" where
  "cmd_refresh env arg =
     cbind (cget co_session) (\<lambda>s.
     case s of
       None \<Rightarrow> cfail (Errorf ''no control-plane identity; run once with -refresh to create one'' [])
     | Some s \<Rightarrow>
         cbind (say (''contacting the control plane'' @ dots @ [nl]) []) (\<lambda>_.
         cbind (console_refresh env s) (\<lambda>r.
         case r of
           Inl e \<Rightarrow>
             (case as_needs_auth e of
                Some (_, url) \<Rightarrow>
                  say (''this client is not approved yet.'' @ [nl] @ ''  open: %s'' @ [nl] @ ''  then run '' @ dquote ''refresh''
                    @ '' again'' @ [nl]) [AStr url]
              | None \<Rightarrow> cfail e)
         | Inr iv \<Rightarrow>
             cbind (set_inventory iv) (\<lambda>_.
             say (''updated: %d exits, %d ingresses, %d root domains'' @ [nl])
               [AInt (int (length (inv_hosts iv))), AInt (int (length (inv_entry_groups iv))),
                AInt (int (length (inv_root_domains iv)))]))))"

text \<open>The table of commands: names, arguments and summaries, and what each runs.\<close>

definition command_texts :: "(string \<times> string \<times> string) list" where
  "command_texts =
     [(''status'', [], ''show what is running''),
      (''exits'', [], ''list exit nodes''),
      (''entries'', [], ''list operator ingresses''),
      (''exit'', ''<slug|#>'', ''select the exit node''),
      (''entry'', ''<name|#>'', ''select the operator ingress''),
      (''udp'', ''on|off'', ''toggle SOCKS UDP associate''),
      (''route'', ''global|smart'', ''choose how much traffic the tunnel carries''),
      (''direct'', ''on|off'', ''bypass the front proxy''),
      (''start'', [], ''apply the current selection''),
      (''stop'', [], ''stop the proxy''),
      (''refresh'', [], ''fetch a fresh node directory''),
      (''help'', [], ''show this list'')]"

definition cmd_help :: "con_env \<Rightarrow> string \<Rightarrow> unit cmd" where
  "cmd_help env arg =
     cbind (show_each (\<lambda>_ (name, args, summary).
       say (''  %s %s'' @ [tab] @ ''%s'' @ [nl]) [AStr name, AStr args, AStr summary]) 0 command_texts) (\<lambda>_.
     say (''  quit'' @ [tab] @ '' leave the console; the proxy stops with it'' @ [nl]) [])"

definition commands :: "(string \<times> (con_env \<Rightarrow> string \<Rightarrow> unit cmd)) list" where
  "commands = zip (map fst command_texts)
     [cmd_status, cmd_exits, cmd_entries, cmd_set_exit, cmd_set_entry, cmd_udp, cmd_route, cmd_direct,
      cmd_start, cmd_stop, cmd_refresh, cmd_help]"

definition dispatch :: "con_env \<Rightarrow> string \<Rightarrow> string \<Rightarrow> unit cmd" where
  "dispatch env name arg =
     (case find (\<lambda>(n, _). n = name) commands of
        Some (_, run) \<Rightarrow> run env arg
      | None \<Rightarrow> cfail (Errorf (''unknown command %q; type '' @ dquote ''help'') [AStr name]))"

section \<open>The loop\<close>

text \<open>
  What the loop meets: the context's end at the top of a round, a line, or the end of the input
  with the scanner's error. With no more to come it waits; a crash ends the program.
\<close>

datatype con_event = Ended | Line string | InputEnd "gerr option"

datatype con_outcome = Waiting | Returned "gerr option" | Crashed string

definition split_command :: "string \<Rightarrow> string \<times> string" where
  "split_command line = (let (name, arg) = cut CHR '' '' line in (to_lower name, trim_space arg))"

fun console_loop :: "con_env \<Rightarrow> con_event list \<Rightarrow> console \<Rightarrow> con_outcome \<times> console" where
  "console_loop env [] c = (Waiting, c)"
| "console_loop env (Ended # es) c = (Returned None, c)"
| "console_loop env (InputEnd e # es) c =
     (Returned e, snd (say [nl] [] (snd (say (nl # ''> '') [] c))))"
| "console_loop env (Line text # es) c =
     (let c = snd (say (nl # ''> '') [] c); line = trim_space text
      in if line = [] then console_loop env es c
         else let (name, arg) = split_command line
           in if name = ''quit'' \<or> name = ''q'' then (Returned None, c)
              else case dispatch env name arg c of
                     (Inl (Crash m), c) \<Rightarrow> (Crashed m, c)
                   | (Inl (Failed e), c) \<Rightarrow> console_loop env es (snd (say (''error: %v'' @ [nl]) [AErr e] c))
                   | (Inr _, c) \<Rightarrow> console_loop env es c)"

definition console_run :: "con_env \<Rightarrow> con_event list \<Rightarrow> console \<Rightarrow> con_outcome \<times> console" where
  "console_run env es c =
     (case cbind (say (''tunnet-lite console. Type '' @ dquote ''help'' @ '' for commands, '' @ dquote ''quit'' @ '' to leave.''
             @ [nl, nl]) []) (\<lambda>_. show_status) c of
        (Inl (Crash m), c) \<Rightarrow> (Crashed m, c)
      | (Inl (Failed e), c) \<Rightarrow> (Returned (Some e), c)
      | (Inr _, c) \<Rightarrow> console_loop env es c)"


section \<open>Where a panic cannot happen\<close>

lemma select_no_panic:
  assumes "validate iv = Inr ()"
  shows "select_host iv slug \<noteq> Inl (Panic m)" "select_group eqf iv name \<noteq> Inl (Panic m)"
    "select_root pick iv pinned cached \<noteq> Inl (Panic m)"
  using assms by (auto simp: select_host_def select_group_def select_root_def validates_good good_inventory_def
      split: option.splits list.splits)

lemma first_key_no_panic: "first_key es k \<noteq> Inl (Panic m)"
  by (induction es) (auto split: option.splits)

lemma build_no_panic: "build o1 \<noteq> Inl (Panic m)"
proof -
  have "split_endpoint s \<noteq> Inl (Panic m)" for s
    by (auto simp: split_endpoint_def Let_def res_simps split: prod.splits option.splits)
  then have "build_outbounds o2 \<noteq> Inl (Panic m)" for o2
    by (auto simp: build_outbounds_def front_outbound_def res_simps split: option.splits prod.splits)
  then show ?thesis by (auto simp: build_def validate_options_def res_simps Let_def)
qed

lemma rank_no_panic: "rank_entries env g so w \<noteq> (Inl (Panic m), w')"
  by (auto simp: rank_entries_def Let_def split: if_splits)

lemma resolve_no_panic:
  assumes "validate iv = Inr ()"
  shows "resolve env iv so w \<noteq> (Inl (Panic m), w')"
  using select_no_panic [OF assms] first_key_no_panic build_no_panic rank_no_panic
  by (auto simp: resolve_def res_simps Let_def normalized_key_def choose_front_def split: if_splits option.splits)

lemma rank_entries_some: "rank_entries env g so w = (Inr entries, w') \<Longrightarrow> entries \<noteq> []"
  by (auto simp: rank_entries_def Let_def split: if_splits)

lemma apply_plan_no_panic: "apply_plan x now p t e \<noteq> (Inl (Panic m), e')"
  by (auto simp: apply_plan_def fail_locked_def Let_def split: sum.splits prod.splits)

text \<open>An engine as \<open>Engine\<close> keeps it, whose plan has an address.\<close>

definition shows_entries :: "engine \<Rightarrow> bool" where
  "shows_entries e \<longleftrightarrow> engine_ok e \<and> (\<forall>p. en_plan e = Some p \<longrightarrow> pl_entries p \<noteq> [])"

lemma start_safe:
  assumes "start env x now iv so (w, e) = (r, (w', e'))" "validate iv = Inr ()" "shows_entries e"
  shows "r \<noteq> Inl (Panic m)" "shows_entries e'"
proof -
  obtain q w1 where q: "resolve env iv so w = (q, w1)" by (rule prod.exhaust) (rule that)
  have "r \<noteq> Inl (Panic m) \<and> shows_entries e'"
  proof (cases q)
    case (Inl err)
    then have "r = Inl err" "e' = e" using assms(1) q by (simp_all add: start_def)
    then show ?thesis using resolve_no_panic [OF assms(2)] q Inl assms(3) by blast
  next
    case (Inr pt)
    obtain p t where pt: "pt = (p, t)" by fastforce
    obtain y e1 where y: "apply_plan x now p t e = (y, e1)" by (rule prod.exhaust) (rule that)
    have r: "e' = e1" "r = (case y of Inl err \<Rightarrow> Inl err | Inr _ \<Rightarrow> Inr p)"
      using assms(1) q Inr pt y by (auto simp: start_def split: sum.splits)
    have "pl_entries p \<noteq> []"
      by (rule resolve_Inr [OF q [unfolded Inr pt]]) (auto dest: rank_entries_some simp: plan_of_def)
    moreover have ok: "engine_ok e" using assms(3) by (simp add: shows_entries_def)
    ultimately have "shows_entries e'"
      using apply_plan_ok [OF ok y] r(1) by (auto simp: shows_entries_def engine_ok_def split: sum.splits)
    moreover have "r \<noteq> Inl (Panic m)"
      using apply_plan_no_panic [of x now p t e m e1] y r(2) by (auto split: sum.splits)
    ultimately show ?thesis by simp
  qed
  then show "r \<noteq> Inl (Panic m)" "shows_entries e'" by simp_all
qed

lemma stop_safe: "shows_entries e \<Longrightarrow> shows_entries (snd (stop_engine x e))"
  using stop_locked_ok(1) [of e x] stop_locked_ok(2) [of e x]
  by (auto simp: shows_entries_def stop_engine_def) (auto simp: engine_ok_def)


section \<open>Commands that keep a condition and do not crash\<close>

definition safe :: "(console \<Rightarrow> bool) \<Rightarrow> ('a \<Rightarrow> bool) \<Rightarrow> 'a cmd \<Rightarrow> bool" where
  "safe P Q m \<longleftrightarrow> (\<forall>c. P c \<longrightarrow> (case m c of
       (Inl (Crash _), _) \<Rightarrow> False
     | (Inl (Failed _), c') \<Rightarrow> P c'
     | (Inr x, c') \<Rightarrow> P c' \<and> Q x))"

lemma safeI:
  assumes "\<And>c r c'. P c \<Longrightarrow> m c = (r, c') \<Longrightarrow> P c' \<and> (\<forall>s. r \<noteq> Inl (Crash s)) \<and> (\<forall>x. r = Inr x \<longrightarrow> Q x)"
  shows "safe P Q m"
  unfolding safe_def using assms by (fastforce split: prod.splits sum.splits fault.splits)

lemma safeD:
  assumes "safe P Q m" "P c" "m c = (r, c')"
  shows "P c' \<and> (\<forall>s. r \<noteq> Inl (Crash s)) \<and> (\<forall>x. r = Inr x \<longrightarrow> Q x)"
proof (cases r)
  case (Inl e)
  then show ?thesis using assms by (cases e) (auto simp: safe_def dest: spec [of _ c])
next
  case (Inr x)
  then show ?thesis using assms by (auto simp: safe_def dest: spec [of _ c])
qed

lemma safe_bind:
  assumes "safe P Q m" "\<And>x. Q x \<Longrightarrow> safe P R (f x)"
  shows "safe P R (cbind m f)"
proof (rule safeI)
  fix c r c' assume c: "P c" and r: "cbind m f c = (r, c')"
  obtain y c1 where y: "m c = (y, c1)" by (rule prod.exhaust) (rule that)
  show "P c' \<and> (\<forall>s. r \<noteq> Inl (Crash s)) \<and> (\<forall>x. r = Inr x \<longrightarrow> R x)"
  proof (cases y)
    case (Inl e)
    then show ?thesis using safeD [OF assms(1) c y] r y by (auto simp: cbind_def)
  next
    case (Inr x)
    then have x: "P c1" "Q x" "f x c1 = (r, c')" using safeD [OF assms(1) c y] r y by (simp_all add: cbind_def)
    show ?thesis by (rule safeD [OF assms(2) [OF x(2)] x(1,3)])
  qed
qed

lemma safe_then: "safe P (\<lambda>_. True) m \<Longrightarrow> safe P Q m' \<Longrightarrow> safe P Q (cbind m (\<lambda>_. m'))"
  by (erule safe_bind)

lemma safe_simps [simp]:
  "safe P Q (cfail e)" "Q x \<Longrightarrow> safe P Q (cret x)" "safe P (\<lambda>x. \<exists>c. P c \<and> x = g c) (cget g)"
  by (auto simp: safe_def cfail_def cret_def cget_def)

lemma safe_res: "(\<And>m. r \<noteq> Inl (Panic m)) \<Longrightarrow> (\<And>x. r = Inr x \<Longrightarrow> Q x) \<Longrightarrow> safe P Q (cres r)"
  by (cases r) (auto simp: cres_def split: gerr.splits)

lemma safe_mod: "(\<And>c. P c \<Longrightarrow> P (f c)) \<Longrightarrow> safe P (\<lambda>_. True) (cmod f)"
  by (auto simp: safe_def cmod_def)

text \<open>Only the five choices the console edits differ.\<close>

definition edited :: "sup_options \<Rightarrow> sup_options \<Rightarrow> bool" where
  "edited so so' \<longleftrightarrow> (\<exists>h g u d r. so' = so\<lparr>so_host_slug := h, so_entry_group := g, so_udp := u, so_no_front := d,
      so_route_mode := r\<rparr> \<and> (r = so_route_mode so \<or> r \<in> {route_global, route_smart}))"

definition con_ok :: "sup_options \<Rightarrow> console \<Rightarrow> bool" where
  "con_ok so c \<longleftrightarrow> validate (co_inv c) = Inr () \<and> set (co_swaps c) \<subseteq> {None} \<and> shows_entries (co_engine c)
     \<and> edited so (co_opts c)"

lemma edited_refl: "edited so so"
  unfolding edited_def
  by (intro exI [of _ "so_host_slug so"] exI [of _ "so_entry_group so"] exI [of _ "so_udp so"]
      exI [of _ "so_no_front so"] exI [of _ "so_route_mode so"]) simp

lemma edited_updates:
  assumes "edited so so'"
  shows "edited so (so'\<lparr>so_host_slug := h\<rparr>)" "edited so (so'\<lparr>so_entry_group := g\<rparr>)" "edited so (so'\<lparr>so_udp := u\<rparr>)"
    "edited so (so'\<lparr>so_no_front := d\<rparr>)"
    "r = route_global \<or> r = route_smart \<Longrightarrow> edited so (so'\<lparr>so_route_mode := r\<rparr>)"
  using assms by (cases so; auto simp: edited_def)+

lemma safe_say [simp]: "safe (con_ok so) (\<lambda>_. True) (say fmt args)" "safe (con_ok so) (\<lambda>_. True) (row l fmt args)"
  unfolding say_def row_def by (rule safe_mod, simp add: con_ok_def)+

lemma safe_read: "safe (con_ok so) (\<lambda>iv. validate iv = Inr ()) read_inv"
  by (auto simp: safe_def read_inv_def con_ok_def split: list.splits option.splits)

lemma safe_show_each: "(\<And>i x. safe P (\<lambda>_. True) (f i x)) \<Longrightarrow> safe P (\<lambda>_. True) (show_each f i xs)"
  by (induction f i xs rule: show_each.induct) (auto intro: safe_then)

lemma safe_show_plan: "pl_entries p \<noteq> [] \<Longrightarrow> safe (con_ok so) (\<lambda>_. True) (show_plan t p)"
  unfolding show_plan_def by (intro safe_then safe_say) (simp split: list.split)

lemma safe_selection: "safe (con_ok so) (\<lambda>_. True) show_selection"
  unfolding show_selection_def by (rule safe_bind [OF safe_simps(3)]) simp

lemma safe_status: "safe (con_ok so) (\<lambda>_. True) show_status"
  unfolding show_status_def
proof (rule safe_bind [OF safe_simps(3)], elim exE conjE, rule safe_then)
  fix s c assume c: "con_ok so c" and s: "s = engine_status (co_engine c)"
  show "safe (con_ok so) (\<lambda>_. True)
      (if \<not> st_running s then cbind (row ''state'' ''stopped'' [])
           (\<lambda>_. case st_last_error s of None \<Rightarrow> cret () | Some e \<Rightarrow> row ''last error'' ''%s'' [AErr e])
       else case (st_plan s, st_started_at s) of (Some p, Some t) \<Rightarrow> show_plan t p
          | _ \<Rightarrow> ccrash ''nil pointer dereference'')"
  proof (cases "st_running s")
    case False
    have "safe (con_ok so) (\<lambda>_. True) (case st_last_error s of None \<Rightarrow> cret () | Some e \<Rightarrow> row ''last error'' ''%s'' [AErr e])"
      by (cases "st_last_error s") simp_all
    with False show ?thesis by (simp only: not_False_eq_True if_True safe_then safe_say)
  next
    case True
    then obtain p t where "st_plan s = Some p" "st_started_at s = Some t" "pl_entries p \<noteq> []"
      using c s by (auto simp: con_ok_def shows_entries_def engine_ok_def engine_status_def)
    then show ?thesis using True safe_show_plan by simp
  qed
qed (rule safe_selection)


lemma safe_by_number: "safe (con_ok so) (\<lambda>_. True) (by_number items name_of msg arg)"
proof (rule safeI)
  fix c r c' assume c: "con_ok so c" and r: "by_number items name_of msg arg c = (r, c')"
  have rd: "\<exists>sw. set sw \<subseteq> {None} \<and> read_inv d = (Inr (co_inv d), d\<lparr>co_swaps := sw\<rparr>)" if "set (co_swaps d) \<subseteq> {None}" for d
    using that by (intro exI [of _ "tl (co_swaps d)"]) (auto simp: read_inv_def split: list.split)
  from c obtain sw where 1: "set sw \<subseteq> {None}" "read_inv c = (Inr (co_inv c), c\<lparr>co_swaps := sw\<rparr>)"
    using rd [of c] by (auto simp: con_ok_def)
  obtain sw' where 2: "set sw' \<subseteq> {None}" "read_inv (c\<lparr>co_swaps := sw\<rparr>) = (Inr (co_inv c), c\<lparr>co_swaps := sw'\<rparr>)"
    using rd [of "c\<lparr>co_swaps := sw\<rparr>"] 1(1) by auto
  have ok: "con_ok so (c\<lparr>co_swaps := sw\<rparr>)" "con_ok so (c\<lparr>co_swaps := sw'\<rparr>)"
    using c 1(1) 2(1) by (simp_all add: con_ok_def)
  show "con_ok so c' \<and> (\<forall>s. r \<noteq> Inl (Crash s)) \<and> (\<forall>x. r = Inr x \<longrightarrow> True)"
  proof (cases "atoi arg")
    case None
    then show ?thesis using r c by (auto simp: by_number_def cret_def)
  next
    case (Some n)
    consider "n < 1" | "1 \<le> n" "n > int (length (items (co_inv c)))" | "1 \<le> n" "n \<le> int (length (items (co_inv c)))"
      by linarith
    then show ?thesis
    proof cases
      case 1
      then show ?thesis using Some r c by (auto simp: by_number_def cfail_def Let_def)
    next
      case 2
      then show ?thesis using Some r ok(1) 1 by (auto simp: by_number_def cfail_def Let_def cbind_def)
    next
      case 3
      then have "nat n - 1 < length (items (co_inv c))" by linarith
      then show ?thesis using 3 Some r ok(2) 1(2) 2(2) by (auto simp: by_number_def cret_def Let_def cbind_def)
    qed
  qed
qed

lemma safe_edit:
  assumes "\<And>so'. edited so so' \<Longrightarrow> edited so (f so')"
  shows "safe (con_ok so) (\<lambda>_. True) (cmod (\<lambda>c. c\<lparr>co_opts := f (co_opts c)\<rparr>))"
  by (rule safe_mod) (simp add: con_ok_def assms)

lemma safe_set:
  "safe (con_ok so) (\<lambda>_. True) (cmd_set_exit env arg)"
  "safe (con_ok so) (\<lambda>_. True) (cmd_set_entry env arg)"
  unfolding cmd_set_exit_def cmd_set_entry_def
  by (auto intro!: safe_bind [OF safe_by_number] safe_bind [OF safe_read] safe_bind [OF safe_res [where Q = "\<lambda>_. True"]]
      safe_bind [OF safe_edit] simp: select_no_panic edited_updates)

lemma safe_toggles:
  "safe (con_ok so) (\<lambda>_. True) (cmd_udp env arg)" "safe (con_ok so) (\<lambda>_. True) (cmd_direct env arg)"
proof -
  have "parse_toggle arg b \<noteq> Inl (Panic m)" for b m by (simp add: parse_toggle_def Let_def)
  then show "safe (con_ok so) (\<lambda>_. True) (cmd_udp env arg)" "safe (con_ok so) (\<lambda>_. True) (cmd_direct env arg)"
    unfolding cmd_udp_def cmd_direct_def
    by (auto intro!: safe_bind [OF safe_simps(3)] safe_bind [OF safe_res [where Q = "\<lambda>_. True"]] safe_bind [OF safe_edit]
        simp: edited_updates)
qed

lemma safe_assets: "safe (con_ok so) (\<lambda>_. True) (console_assets env)"
  by (rule safeI) (auto simp: console_assets_def con_ok_def split: prod.splits option.splits)

lemma safe_route: "safe (con_ok so) (\<lambda>_. True) (cmd_route env arg)"
proof -
  have "parse_route_mode arg \<noteq> Inl (Panic m)" for m by (simp add: parse_route_mode_def)
  moreover have "parse_route_mode arg = Inr m \<Longrightarrow> m = route_global \<or> m = route_smart" for m
    by (auto simp: parse_route_mode_def split: if_splits)
  ultimately show ?thesis
    unfolding cmd_route_def
    by (auto intro!: safe_bind [OF safe_res [where Q = "\<lambda>m. m = route_global \<or> m = route_smart"]]
        safe_then safe_assets safe_edit simp: edited_updates)
qed

lemma safe_console_start:
  assumes "validate iv = Inr ()"
  shows "safe (con_ok so) (\<lambda>_. True) (console_start env iv)"
proof (rule safeI)
  fix c r c' assume c: "con_ok so c" and r: "console_start env iv c = (r, c')"
  let ?w = "co_world c"
  obtain x sw eng where x: "start (ev_sup env) (ev_xray env) (ev_now env (en_created (co_engine c))) iv (co_opts c)
      (\<lparr>sw_fs = w_fs ?w, sw_log = w_log ?w\<rparr>, co_engine c) = (x, (sw, eng))" by (metis prod.exhaust)
  have s: "\<And>m. x \<noteq> Inl (Panic m)" "shows_entries eng"
    using start_safe [OF x assms] c by (auto simp: con_ok_def)
  have "(r, c') = cres x (c\<lparr>co_world := ?w\<lparr>w_fs := sw_fs sw, w_log := sw_log sw\<rparr>, co_engine := eng\<rparr>)"
    using r x by (simp add: console_start_def)
  moreover have "con_ok so (c\<lparr>co_world := ?w\<lparr>w_fs := sw_fs sw, w_log := sw_log sw\<rparr>, co_engine := eng\<rparr>)"
    using c s(2) by (simp add: con_ok_def)
  ultimately show "con_ok so c' \<and> (\<forall>s. r \<noteq> Inl (Crash s)) \<and> (\<forall>x. r = Inr x \<longrightarrow> True)"
    using safeD [OF safe_res [OF s(1), where Q = "\<lambda>_. True"]] by metis
qed


lemma safe_start: "safe (con_ok so) (\<lambda>_. True) (cmd_start env arg)"
  unfolding cmd_start_def
  by (intro safe_then safe_say safe_bind [OF safe_read] safe_bind [OF safe_console_start] safe_status)

lemma safe_stop: "safe (con_ok so) (\<lambda>_. True) (cmd_stop env arg)"
  unfolding cmd_stop_def
proof (rule safe_then [OF safeI safe_say(1)])
  fix c r c'
  assume c: "con_ok so c" and r: "(let (r, eng) = stop_engine (ev_xray env) (co_engine c)
      in ((case r of Inl e \<Rightarrow> Inl (Failed e) | Inr u \<Rightarrow> Inr u), c\<lparr>co_engine := eng\<rparr>)) = (r, c')"
  have "shows_entries (snd (stop_engine (ev_xray env) (co_engine c)))"
    using stop_safe c by (simp add: con_ok_def)
  then show "con_ok so c' \<and> (\<forall>s. r \<noteq> Inl (Crash s)) \<and> (\<forall>x. r = Inr x \<longrightarrow> True)"
    using c r by (auto simp: con_ok_def split: prod.splits sum.splits)
qed

lemma safe_refresh: "safe (con_ok so) (\<lambda>_. True) (cmd_refresh env arg)"
proof -
  have "safe (con_ok so) (\<lambda>r. \<forall>iv. r = Inr iv \<longrightarrow> validate iv = Inr ()) (console_refresh env s)" for s
  proof (rule safeI)
    fix c r c' assume c: "con_ok so c" and r: "console_refresh env s c = (r, c')"
    obtain x st where x: "refresh (ev_client env) (ev_wait env) plain_refresh (s, co_world c) = (x, st)"
      by (rule prod.exhaust) (rule that)
    have "x = Inr iv \<Longrightarrow> validate iv = Inr ()" for iv using refresh_plain(3) [OF x] by (simp add: usable_def)
    then show "con_ok so c' \<and> (\<forall>s. r \<noteq> Inl (Crash s)) \<and> (\<forall>x. r = Inr x \<longrightarrow> (\<forall>iv. x = Inr iv \<longrightarrow> validate iv = Inr ()))"
      using r c x by (auto simp: console_refresh_def con_ok_def)
  qed
  moreover have "safe (con_ok so) (\<lambda>_. True) (set_inventory iv)" if "validate iv = Inr ()" for iv
    unfolding set_inventory_def using that by (intro safe_mod) (simp add: con_ok_def)
  ultimately show ?thesis
    unfolding cmd_refresh_def
    by (intro safe_bind [OF safe_simps(3)], auto split: option.splits sum.splits
        intro!: safe_then safe_bind [where Q = "\<lambda>r. \<forall>iv. r = Inr iv \<longrightarrow> validate iv = Inr ()"])
qed

lemma safe_help: "safe (con_ok so) (\<lambda>_. True) (cmd_help env arg)"
  unfolding cmd_help_def by (intro safe_then safe_show_each) (auto split: prod.splits)

lemma safe_lists:
  "safe (con_ok so) (\<lambda>_. True) (cmd_exits env arg)" "safe (con_ok so) (\<lambda>_. True) (cmd_entries env arg)"
  unfolding cmd_exits_def cmd_entries_def
  by (intro safe_bind [OF safe_read] safe_bind [OF safe_simps(3)] safe_show_each safe_say)+

lemmas safe_commands = safe_status safe_set safe_toggles safe_route safe_start safe_stop safe_refresh safe_help safe_lists

lemma safe_dispatch: "safe (con_ok so) (\<lambda>_. True) (dispatch env name arg)"
proof (cases "find (\<lambda>(n, _). n = name) commands")
  case (Some nr)
  then have "nr \<in> set commands" by (auto simp: find_Some_iff) (metis nth_mem)
  then have "safe (con_ok so) (\<lambda>_. True) (snd nr env arg)"
    using safe_commands by (auto simp: commands_def command_texts_def cmd_status_def)
  then show ?thesis using Some by (simp add: dispatch_def split_def)
qed (simp add: dispatch_def)

text \<open>The state in which a line is handled, and the loop on a line.\<close>

definition prompted :: "console \<Rightarrow> console" where
  "prompted c = snd (say (nl # ''> '') [] c)"

lemma line_loop:
  assumes "dispatch env (fst (split_command (trim_space s))) (snd (split_command (trim_space s))) (prompted c) = (r, c2)"
  shows "console_loop env (Line s # es) c =
    (if trim_space s = [] then console_loop env es (prompted c)
     else if fst (split_command (trim_space s)) \<in> {''quit'', ''q''} then (Returned None, prompted c)
     else case r of
       Inl (Crash m) \<Rightarrow> (Crashed m, c2)
     | Inl (Failed e) \<Rightarrow> console_loop env es (snd (say (''error: %v'' @ [nl]) [AErr e] c2))
     | Inr _ \<Rightarrow> console_loop env es c2)"
  using assms by (simp add: prompted_def Let_def split_def split: sum.split fault.split)

lemma console_loop_ok:
  assumes "console_loop env es c = (out, c')" "con_ok so c"
  shows "(\<forall>m. out \<noteq> Crashed m) \<and> con_ok so c'"
  using assms
proof (induction es arbitrary: c)
  case (Cons ev es)
  have said: "con_ok so (snd (say fmt args d))" if "con_ok so d" for fmt args d
    using that by (simp add: say_def cmod_def con_ok_def)
  show ?case
  proof (cases ev)
    case (Line s)
    have c1: "con_ok so (prompted c)" using said Cons.prems(2) by (simp add: prompted_def)
    obtain r c2 where r: "dispatch env (fst (split_command (trim_space s))) (snd (split_command (trim_space s))) (prompted c) = (r, c2)"
      by (rule prod.exhaust) (rule that)
    note d = safeD [OF safe_dispatch c1 r] and e = line_loop [OF r, of es, folded Line]
    show ?thesis
    proof (cases r)
      case (Inl f)
      then obtain err where "r = Inl (Failed err)" using d by (cases f) auto
      then show ?thesis using e Cons.prems(1) Cons.IH c1 d said by (auto split: if_splits)
    next
      case (Inr u)
      then show ?thesis using e Cons.prems(1) Cons.IH c1 d by (auto split: if_splits)
    qed
  qed (use Cons.prems said in auto)
qed auto


text \<open>What ends the loop: the context, the input, or the command to leave.\<close>

fun ends :: "con_event \<Rightarrow> bool" where
  "ends Ended = True"
| "ends (InputEnd _) = True"
| "ends (Line text) = (fst (split_command (trim_space text)) \<in> {''quit'', ''q''})"

text \<open>One line: the loop leaves at once, crashes, or goes on with the rest in some state.\<close>

lemma split_command_nil: "split_command [] = ([], [])"
  by code_simp

lemma line_step:
  "ends (Line s) \<Longrightarrow> console_loop env (Line s # es) c = (Returned None, prompted c)"
  "\<not> ends (Line s) \<Longrightarrow> (\<exists>m c2. \<forall>es. console_loop env (Line s # es) c = (Crashed m, c2))
    \<or> (\<exists>c2. \<forall>es. console_loop env (Line s # es) c = console_loop env es c2)"
proof -
  obtain r c2 where r: "dispatch env (fst (split_command (trim_space s))) (snd (split_command (trim_space s))) (prompted c) = (r, c2)"
    by (rule prod.exhaust) (rule that)
  note e = line_loop [OF r]
  show "console_loop env (Line s # es) c = (Returned None, prompted c)" if "ends (Line s)"
    using that unfolding e by (cases "trim_space s = []") (auto simp: split_command_nil)
  show "(\<exists>m c2. \<forall>es. console_loop env (Line s # es) c = (Crashed m, c2))
      \<or> (\<exists>c2. \<forall>es. console_loop env (Line s # es) c = console_loop env es c2)" if "\<not> ends (Line s)"
  proof (cases "trim_space s = []")
    case False
    then show ?thesis using that unfolding e by (cases r; cases "projl r") auto
  qed (auto simp: e)
qed

declare ends.simps(3) [simp del] console_loop.simps(4) [simp del]

lemma ending_step:
  assumes "ends a"
  shows "console_loop env (a # es) c = console_loop env [a] c"
    "\<exists>e. fst (console_loop env [a] c) = Returned e \<and> (e \<noteq> None \<longrightarrow> a = InputEnd e)"
  using assms by (cases a; simp add: line_step(1))+

lemma going_step:
  assumes "\<not> ends a"
  shows "(\<exists>m c2. \<forall>es. console_loop env (a # es) c = (Crashed m, c2))
    \<or> (\<exists>c2. \<forall>es. console_loop env (a # es) c = console_loop env es c2)"
  using assms line_step(2) by (cases a) simp_all

lemma loop_step:
  obtains (stops) e where "ends a" "\<And>es. fst (console_loop env (a # es) c) = Returned e" "e \<noteq> None \<longrightarrow> a = InputEnd e"
  | (crashes) m c2 where "\<not> ends a" "\<And>es. console_loop env (a # es) c = (Crashed m, c2)"
  | (goes) c2 where "\<not> ends a" "\<And>es. console_loop env (a # es) c = console_loop env es c2"
  using ending_step(1) [of a env _ c] ending_step(2) [of a env c] going_step [of a env c] by metis

lemma console_loop_ends:
  "fst (console_loop env es c) = Waiting \<Longrightarrow> \<not> (\<exists>ev \<in> set es. ends ev)"
  "fst (console_loop env es c) = Returned e \<Longrightarrow> \<exists>ev \<in> set es. ends ev \<and> (e \<noteq> None \<longrightarrow> ev = InputEnd e)"
  "ends ev \<Longrightarrow> console_loop env (es @ ev # rest) c = console_loop env (es @ [ev]) c"
proof (induction es arbitrary: c)
  case Nil
  { case 1 then show ?case by simp }
  { case 2 then show ?case by simp }
  { case 3 then show ?case unfolding append_Nil by (rule ending_step(1)) }
next
  case (Cons a es)
  { case 1 then show ?case by (cases rule: loop_step [of a env c]) (use Cons.IH(1) in auto) }
  { case 2 then show ?case by (cases rule: loop_step [of a env c]) (use Cons.IH(2) in auto) }
  { case 3
    show ?case
    proof (cases rule: loop_step [of a env c])
      case (stops e)
      then show ?thesis using ending_step(1) [of a env _ c] by (metis append_Cons)
    qed (use Cons.IH(3) 3 in auto) }
qed

text \<open>Showing the status never fails with an error: it returns or crashes.\<close>

lemma status_returns: "fst (show_status c) \<noteq> Inl (Failed e)"
proof -
  have row: "cbind (row label fmt args) f c = f () (snd (row label fmt args c))" for label fmt args f c
    by (simp add: cbind_def row_def say_def cmod_def)
  have get: "cbind (cget f) g c = g (f c) c" for f g c
    by (simp add: cbind_def cget_def)
  have last_row: "fst (row label fmt args c) = Inr ()" for label fmt args c
    by (simp add: row_def say_def cmod_def)
  have "fst (show_plan t p c) \<noteq> Inl (Failed e)" for t p c
    by (auto simp: show_plan_def row last_row ccrash_def split: list.split)
  moreover have "fst (show_selection c) \<noteq> Inl (Failed e)" for c
    by (simp add: show_selection_def get last_row)
  moreover have "fst (cbind m (\<lambda>_. m') c) \<noteq> Inl (Failed e)"
    if "fst (m c) \<noteq> Inl (Failed e)" "\<And>c. fst (m' c) \<noteq> Inl (Failed e)" for m m' :: "unit cmd" and c
    using that by (cases "m c"; cases "fst (m c)") (auto simp: cbind_def)
  ultimately show ?thesis
    unfolding show_status_def
    by (auto simp: get row last_row cret_def ccrash_def split: option.split)
qed

text \<open>The greeting and the first status, after which the loop runs.\<close>

lemma console_start_ok:
  assumes "validate (co_inv c) = Inr ()" "set (co_swaps c) \<subseteq> {None}" "shows_entries (co_engine c)"
  shows "\<exists>c1. con_ok (co_opts c) c1 \<and> (\<forall>es. console_run env es c = console_loop env es c1)"
proof -
  let ?so = "co_opts c"
  let ?m = "cbind (say (''tunnet-lite console. Type '' @ dquote ''help'' @ '' for commands, '' @ dquote ''quit'' @ '' to leave.''
             @ [nl, nl]) []) (\<lambda>_. show_status)"
  have ok: "con_ok ?so c" using assms by (simp add: con_ok_def edited_refl)
  have m: "safe (con_ok ?so) (\<lambda>_. True) ?m" by (rule safe_then [OF safe_say(1) safe_status])
  obtain r c1 where r: "?m c = (r, c1)" by (rule prod.exhaust) (rule that)
  note d = safeD [OF m ok r]
  have "r = Inr ()"
  proof (cases r)
    case (Inl f)
    then obtain e where "r = Inl (Failed e)" using d by (cases f) auto
    moreover have "?m c = show_status (snd (say (''tunnet-lite console. Type '' @ dquote ''help'' @ '' for commands, ''
        @ dquote ''quit'' @ '' to leave.'' @ [nl, nl]) [] c))"
      by (simp add: cbind_def say_def cmod_def)
    ultimately show ?thesis using r status_returns by (metis fst_conv)
  qed simp
  then show ?thesis using d r by (auto simp: console_run_def)
qed

section \<open>Properties\<close>

lemma console_run_safe:
  assumes "console_run env es c = (out, c')" "validate (co_inv c) = Inr ()" "set (co_swaps c) \<subseteq> {None}"
    and "shows_entries (co_engine c)"
  shows "(\<forall>m. out \<noteq> Crashed m) \<and> validate (co_inv c') = Inr () \<and> shows_entries (co_engine c')
    \<and> edited (co_opts c) (co_opts c')"
proof -
  obtain c1 where c1: "con_ok (co_opts c) c1" "console_loop env es c1 = (out, c')"
    using console_start_ok [OF assms(2-4)] assms(1) by metis
  then show ?thesis using console_loop_ok [OF c1(2,1)] by (simp add: con_ok_def)
qed

text \<open>
  C9: However long it runs and whatever is typed, the console does not crash while no updater
  installs an inventory under it. The inventory it holds is valid, the engine owns exactly the
  instance it shows, whose plan has an address; and of the options only the exit, the entry, UDP,
  the front proxy and the routing change, the routing only to a known mode.
\<close>

lemma console_run_ok:
  assumes "console_run env es c = (out, c')" "validate (co_inv c) = Inr ()" "set (co_swaps c) \<subseteq> {None}"
    and "shows_entries (co_engine c)"
  shows "(\<forall>m. out \<noteq> Crashed m) \<and> validate (co_inv c') = Inr () \<and> shows_entries (co_engine c')
    \<and> edited (co_opts c) (co_opts c')"
  using assms by (rule console_run_safe)

text \<open>
  C10: While no updater installs an inventory under it, the console's \<open>Run\<close> returns exactly when the
  context has ended at a prompt, the input has ended or \<open>quit\<close> was entered, and at the first of
  these: nothing after it is looked at. The only error it returns is the one the input ended with;
  the errors of commands are printed and do not end it.
\<close>

lemma console_returns:
  assumes "validate (co_inv c) = Inr ()" "set (co_swaps c) \<subseteq> {None}" "shows_entries (co_engine c)"
  shows "((\<exists>e. fst (console_run env es c) = Returned e) \<longleftrightarrow> (\<exists>ev \<in> set es. ends ev))
    \<and> (\<forall>ev rest. ends ev \<longrightarrow> console_run env (es @ ev # rest) c = console_run env (es @ [ev]) c)
    \<and> (\<forall>e. fst (console_run env es c) = Returned (Some e) \<longrightarrow> InputEnd (Some e) \<in> set es)"
proof -
  obtain c1 where run: "\<And>es. console_run env es c = console_loop env es c1"
    using console_start_ok [OF assms] by blast
  have "fst (console_loop env es c1) \<noteq> Crashed m" for m
    using console_run_safe [of env es c] assms unfolding run by (metis prod.collapse)
  then have "(\<exists>e. fst (console_loop env es c1) = Returned e) \<longleftrightarrow> (\<exists>ev \<in> set es. ends ev)"
    using console_loop_ends(1,2) [of env es c1] by (metis con_outcome.exhaust)
  moreover have "console_loop env (es @ ev # rest) c1 = console_loop env (es @ [ev]) c1" if "ends ev" for ev rest
    using that by (rule console_loop_ends(3))
  moreover have "InputEnd (Some e) \<in> set es" if "fst (console_loop env es c1) = Returned (Some e)" for e
    using console_loop_ends(2) [OF that] by auto
  ultimately show ?thesis unfolding run by blast
qed

text \<open>
  C37: With the updater running, a number that is in range when it is checked crashes the program
  when a smaller inventory is installed before the element is taken, for \<open>exit\<close> and \<open>entry\<close> alike.
\<close>

lemma number_race:
  assumes "atoi arg = Some n" "1 \<le> n" "co_swaps c = [None, Some iv]"
  shows "(n \<le> int (length (inv_hosts (co_inv c))) \<and> int (length (inv_hosts iv)) < n \<longrightarrow>
      fst (cmd_set_exit env arg c) = Inl (Crash ''index out of range''))
    \<and> (n \<le> int (length (inv_entry_groups (co_inv c))) \<and> int (length (inv_entry_groups iv)) < n \<longrightarrow>
      fst (cmd_set_entry env arg c) = Inl (Crash ''index out of range''))"
proof -
  have ne: "arg \<noteq> []" using assms(1) by (auto simp: atoi_def Let_def)
  have crash: "fst (cbind (by_number items name_of msg arg) f c) = Inl (Crash ''index out of range'')"
    if "n \<le> int (length (items (co_inv c)))" "int (length (items iv)) < n"
    for items :: "inventory \<Rightarrow> 'x list" and name_of msg and f :: "string \<Rightarrow> unit cmd"
    using assms that by (auto simp: by_number_def cbind_def read_inv_def ccrash_def Let_def)
  show ?thesis
    unfolding cmd_set_exit_def cmd_set_entry_def using ne by (simp add: crash)
qed

text \<open>A single read of the inventory, when nothing is installed.\<close>

lemma by_number_quiet:
  assumes "atoi arg = Some n" "1 \<le> n" "n \<le> int (length (items (co_inv c)))" "co_swaps c = []"
  shows "by_number items name_of msg arg c = (Inr (name_of (items (co_inv c) ! (nat n - 1))), c)"
proof -
  have "nat n - 1 < length (items (co_inv c))" using assms(2,3) by linarith
  then show ?thesis using assms by (simp add: by_number_def cbind_def read_inv_def cret_def Let_def)
qed

text \<open>
  C38: The number of an entry selects the first group that a search for its name finds, not the
  group shown under that number: it is another one exactly when an earlier group's name contains
  it (or is the same but for case), so such a group cannot be chosen at all.
\<close>

lemma entry_by_number:
  assumes "atoi arg = Some n" "1 \<le> n" "n \<le> int (length (inv_entry_groups (co_inv c)))" "co_swaps c = []"
    and "\<And>a. sv_eqf (ev_sup env) a a" "name = group_name (inv_entry_groups (co_inv c) ! (nat n - 1))" "name \<noteq> []"
  shows "\<exists>i < nat n. fst (cmd_set_entry env arg c) = Inr ()
    \<and> so_entry_group (co_opts (snd (cmd_set_entry env arg c))) = group_name (inv_entry_groups (co_inv c) ! i)
    \<and> (sv_eqf (ev_sup env) (group_name (inv_entry_groups (co_inv c) ! i)) name
        \<or> contains (group_name (inv_entry_groups (co_inv c) ! i)) name)
    \<and> (i = nat n - 1 \<longleftrightarrow> (\<forall>j < nat n - 1. \<not> sv_eqf (ev_sup env) (group_name (inv_entry_groups (co_inv c) ! j)) name
        \<and> \<not> contains (group_name (inv_entry_groups (co_inv c) ! j)) name))"
proof -
  let ?gs = "inv_entry_groups (co_inv c)"
  let ?hit = "\<lambda>g. sv_eqf (ev_sup env) (group_name g) name \<or> contains (group_name g) name"
  have n: "nat n - 1 < length ?gs" "nat n - 1 < nat n" using assms(2,3) by linarith+
  have hit: "?hit (?gs ! (nat n - 1))" using assms(5,6) by simp
  define i where "i = (LEAST i. i < length ?gs \<and> ?hit (?gs ! i))"
  have i: "i < length ?gs" "?hit (?gs ! i)" "i \<le> nat n - 1" "\<forall>j < i. \<not> ?hit (?gs ! j)"
  proof -
    have ex: "nat n - 1 < length ?gs \<and> ?hit (?gs ! (nat n - 1))" using n hit by simp
    show "i < length ?gs" "?hit (?gs ! i)" "i \<le> nat n - 1"
      using LeastI [of "\<lambda>i. i < length ?gs \<and> ?hit (?gs ! i)", OF ex] Least_le [of "\<lambda>i. i < length ?gs \<and> ?hit (?gs ! i)", OF ex]
      by (simp_all add: i_def)
    then show "\<forall>j < i. \<not> ?hit (?gs ! j)"
      using not_less_Least [of _ "\<lambda>i. i < length ?gs \<and> ?hit (?gs ! i)"] unfolding i_def by (meson less_trans)
  qed
  have "find ?hit ?gs = Some (?gs ! i)" using i by (auto simp: find_Some_iff intro!: exI [of _ i])
  then have sel: "select_group (sv_eqf (ev_sup env)) (co_inv c) name = Inr (?gs ! i)"
    using assms(7) by (simp add: select_group_def)
  have ne: "arg \<noteq> []" using assms(1) by (auto simp: atoi_def Let_def)
  have "fst (cmd_set_entry env arg c) = Inr ()
      \<and> so_entry_group (co_opts (snd (cmd_set_entry env arg c))) = group_name (?gs ! i)"
  proof -
    have bn: "by_number inv_entry_groups group_name msg arg c = (Inr name, c)" for msg
      using by_number_quiet [where items = inv_entry_groups and name_of = group_name, OF assms(1-4)] assms(6) by simp
    have rd: "read_inv c = (Inr (co_inv c), c)" by (simp add: read_inv_def assms(4))
    show ?thesis
      unfolding cmd_set_entry_def cbind_def bn
      by (simp add: ne bn rd sel cres_def cret_def cmod_def say_def)
  qed
  moreover have "i = nat n - 1 \<longleftrightarrow> (\<forall>j < nat n - 1. \<not> ?hit (?gs ! j))"
    using i(2-4) by (metis le_neq_implies_less)
  ultimately show ?thesis using i(2,3) n(2) by (intro exI [of _ i]) auto
qed


section \<open>Concrete runs\<close>

definition toy_con_env :: con_env where
  "toy_con_env = \<lparr>ev_client = toy_env (toy_srv []), ev_wait = (\<lambda>_. Inr ()), ev_sup = toy_sup_env, ev_xray = toy_xray,
     ev_now = int, ev_cwd = Inr ''/d'', ev_setenv = (\<lambda>_. Inr ()), ev_loc = (\<lambda>_ n. n)\<rparr>"

definition toy_console :: "inventory \<Rightarrow> inventory option list \<Rightarrow> console" where
  "toy_console iv swaps = new_console new_engine iv toy_choices None toy_world None swaps"

lemma toy_console_simps [simp]:
  "co_inv (toy_console iv swaps) = iv" "co_swaps (toy_console iv swaps) = swaps"
  "co_engine (toy_console iv swaps) = new_engine" "co_opts (toy_console iv swaps) = toy_choices"
  by (simp_all add: toy_console_def new_console_def)

lemma console_run_ok_witness:
  "\<exists>out c'. console_run toy_con_env [Line ''start'', Line ''exit 7'', Line '' udp on'', InputEnd None]
      (toy_console sample_inventory []) = (out, c') \<and> (\<forall>m. out \<noteq> Crashed m) \<and> validate (co_inv c') = Inr ()"
proof -
  obtain out c' where r: "console_run toy_con_env [Line ''start'', Line ''exit 7'', Line '' udp on'', InputEnd None]
      (toy_console sample_inventory []) = (out, c')" by (rule prod.exhaust) (rule that)
  have "shows_entries new_engine" using engine_ok_new by (simp add: shows_entries_def new_engine_def)
  with console_run_ok [OF r] r sample_valid show ?thesis by auto
qed

lemma console_returns_witness:
  "fst (console_run toy_con_env ([Line ''exit 7''] @ Line ''Quit '' # [Line ''start'']) (toy_console sample_inventory []))
    \<in> range Returned"
proof -
  let ?es = "[Line ''exit 7''] @ Line ''Quit '' # [Line ''start'']"
  have "ends (Line ''Quit '')" by code_simp
  then have e: "\<exists>ev \<in> set ?es. ends ev" by simp
  have "shows_entries new_engine" using engine_ok_new by (simp add: shows_entries_def new_engine_def)
  then have "\<exists>e. fst (console_run toy_con_env ?es (toy_console sample_inventory [])) = Returned e"
    using e by (intro iffD2 [OF conjunct1 [OF console_returns]]) (simp_all add: sample_valid)
  then show ?thesis by (metis rangeI)
qed

lemma number_race_witness:
  "fst (cmd_set_exit toy_con_env ''2''
      (toy_console (sample_inventory\<lparr>inv_hosts := [sample_host, sample_host]\<rparr>) [None, Some sample_inventory]))
    = Inl (Crash ''index out of range'')"
proof -
  have "atoi ''2'' = Some 2" by code_simp
  from number_race [OF this, of "toy_console (sample_inventory\<lparr>inv_hosts := [sample_host, sample_host]\<rparr>) [None, Some sample_inventory]"
      sample_inventory toy_con_env]
  show ?thesis by (simp add: sample_inventory_def)
qed

definition two_groups :: inventory where
  "two_groups = sample_inventory\<lparr>inv_entry_groups :=
     [\<lparr>group_name = ''south-2'', group_ipv4 = [''192.0.2.2''], group_front = None\<rparr>,
      \<lparr>group_name = ''south'', group_ipv4 = [''192.0.2.1''], group_front = None\<rparr>]\<rparr>"

lemma entry_by_number_witness:
  "so_entry_group (co_opts (snd (cmd_set_entry toy_con_env ''2'' (toy_console two_groups [])))) = ''south-2''"
proof -
  have a: "atoi ''2'' = Some 2" and c: "contains ''south-2'' ''south''" by code_simp+
  have g: "inv_entry_groups two_groups ! 0 = \<lparr>group_name = ''south-2'', group_ipv4 = [''192.0.2.2''], group_front = None\<rparr>"
    "inv_entry_groups two_groups ! 1 = \<lparr>group_name = ''south'', group_ipv4 = [''192.0.2.1''], group_front = None\<rparr>"
    "length (inv_entry_groups two_groups) = 2" by (simp_all add: two_groups_def)
  obtain i where i: "i < nat 2"
    "so_entry_group (co_opts (snd (cmd_set_entry toy_con_env ''2'' (toy_console two_groups [])))) = group_name (inv_entry_groups two_groups ! i)"
    "i = nat 2 - 1 \<longleftrightarrow> (\<forall>j < nat 2 - 1. \<not> sv_eqf (ev_sup toy_con_env) (group_name (inv_entry_groups two_groups ! j)) ''south''
        \<and> \<not> contains (group_name (inv_entry_groups two_groups ! j)) ''south'')"
    using entry_by_number [OF a, of "toy_console two_groups []" toy_con_env "''south''"] g
    by (auto simp: toy_con_env_def toy_sup_env_def)
  have "i \<noteq> 1" using i(3) c g(1) by auto
  with i(1) have "i = 0" by simp
  with i(2) g(1) show ?thesis by simp
qed

end
