(* ===== verification/Resolver.thy ===== *)
theory Resolver
  imports Client GoNet
begin

text \<open>
  \<open>internal/resolver\<close>: names over DNS-over-HTTPS. The DNS wire format (\<open>dnsmessage\<close>), the media
  type parser, \<open>url.Parse\<close> and HTTP are parameters; the state is the list of requests sent so far,
  each with its upstream and its body.
\<close>

section \<open>Data\<close>

datatype qtype = TypeA | TypeAAAA | TypeHTTPS

datatype rr_body =
    AResource string
  | AAAAResource string
  | HTTPSResource "(nat \<times> string) list"
  | SVCBResource "(nat \<times> string) list"
  | OtherResource

record dns_message =
  dm_response :: bool
  dm_rcode :: nat
  dm_answers :: "rr_body list"

record doh_reply =
  dr_code :: int
  dr_status :: string
  dr_content_type :: string
  dr_body :: "string result"

type_synonym doh_sent = "(string \<times> string) list"

record doh_env =
  de_url :: "string \<Rightarrow> url result"
  de_request :: "string \<Rightarrow> unit result"
  de_http :: "doh_sent \<Rightarrow> string \<Rightarrow> string \<Rightarrow> doh_reply result"
  de_media :: "string \<Rightarrow> string result"
  de_pack :: "string \<Rightarrow> qtype \<Rightarrow> string result"
  de_unpack :: "string \<Rightarrow> dns_message result"

text \<open>The resolver is its list of upstreams.\<close>

type_synonym doh = "string list"

definition default_upstreams :: "string list" where
  "default_upstreams = [''https://223.5.5.5/dns-query'', ''https://1.12.12.12/dns-query'']"

section \<open>Operations\<close>

definition upstream_ok :: "doh_env \<Rightarrow> string \<Rightarrow> string \<Rightarrow> unit result" where
  "upstream_ok env raw s =
     rbind (rwrap (\<lambda>e. Errorf ''invalid DoH upstream %q: %w'' [AStr raw, AErr e]) (de_url env s)) (\<lambda>u.
     rcheck (url_scheme u = ''https'' \<and> \<not> url_user u \<and> is_ip (url_hostname u))
       (Errorf ''DoH upstream %q must be an HTTPS URL with an IP-literal host'' [AStr raw]))"

definition validate_upstreams :: "doh_env \<Rightarrow> string list \<Rightarrow> string list result" where
  "validate_upstreams env upstreams =
     (let selected = (if upstreams = [] then default_upstreams else upstreams)
      in rbind (for_each (\<lambda>raw. upstream_ok env raw (trim_space raw)) selected) (\<lambda>_.
         Inr (map trim_space selected)))"

definition new_doh :: "doh_env \<Rightarrow> string list \<Rightarrow> doh result" where
  "new_doh env upstreams = validate_upstreams env upstreams"

definition fqdn :: "string \<Rightarrow> string" where
  "fqdn name = (if name \<noteq> [] \<and> last name = CHR ''.'' then name else name @ ''.'')"

definition build_query :: "doh_env \<Rightarrow> string \<Rightarrow> qtype \<Rightarrow> string result" where
  "build_query env name t = de_pack env (fqdn name) t"

definition parse_answers :: "doh_env \<Rightarrow> string \<Rightarrow> rr_body list result" where
  "parse_answers env payload =
     rbind (de_unpack env payload) (\<lambda>m.
     rbind (rcheck (dm_response m) (Errorf ''DNS payload is not a response'' [])) (\<lambda>_.
     rbind (rcheck (dm_rcode m = 0) (Errorf ''DNS response code %v'' [AInt (int (dm_rcode m))])) (\<lambda>_.
     Inr (dm_answers m))))"

text \<open>What is done with a reply.\<close>

definition doh_answer :: "doh_env \<Rightarrow> string \<Rightarrow> doh_reply \<Rightarrow> rr_body list result" where
  "doh_answer env upstream r =
     rbind (rcheck (dr_code r = 200) (Errorf ''%s returned %s'' [AStr upstream, AStr (dr_status r)])) (\<lambda>_.
     rbind (rcheck (de_media env (dr_content_type r) = Inr ''application/dns-message'')
       (Errorf ''%s returned invalid content type %q'' [AStr upstream, AStr (dr_content_type r)])) (\<lambda>_.
     rbind (dr_body r) (\<lambda>payload.
     parse_answers env (take (64 * 1024) payload))))"

definition doh_exchange :: "doh_env \<Rightarrow> string \<Rightarrow> string \<Rightarrow> doh_sent \<Rightarrow> rr_body list result \<times> doh_sent" where
  "doh_exchange env upstream wire sent =
     (case de_request env upstream of
        Inl e \<Rightarrow> (Inl e, sent)
      | Inr _ \<Rightarrow>
          (rbind (de_http env sent upstream wire) (doh_answer env upstream), sent @ [(upstream, wire)]))"

fun ask_upstreams :: "doh_env \<Rightarrow> string \<Rightarrow> string list \<Rightarrow> gerr list \<Rightarrow> doh_sent
    \<Rightarrow> (gerr list + rr_body list) \<times> doh_sent" where
  "ask_upstreams env wire [] errs sent = (Inl errs, sent)"
| "ask_upstreams env wire (u # us) errs sent =
     (case doh_exchange env u wire sent of
        (Inr answers, sent) \<Rightarrow> (Inr answers, sent)
      | (Inl e, sent) \<Rightarrow> ask_upstreams env wire us (errs @ [Errorf ''%s: %w'' [AStr u, AErr e]]) sent)"

definition doh_query :: "doh_env \<Rightarrow> doh \<Rightarrow> string \<Rightarrow> qtype \<Rightarrow> doh_sent \<Rightarrow> rr_body list result \<times> doh_sent" where
  "doh_query env r name t sent =
     (case build_query env name t of
        Inl e \<Rightarrow> (Inl e, sent)
      | Inr wire \<Rightarrow>
          (case ask_upstreams env wire r [] sent of
             (Inr answers, sent) \<Rightarrow> (Inr answers, sent)
           | (Inl errs, sent) \<Rightarrow>
               (Inl (Errorf ''DoH lookup of %s failed on every upstream: %w'' [AStr name, AErr (ErrJoin errs)]), sent)))"

fun address_of :: "rr_body \<Rightarrow> string option" where
  "address_of (AResource b) = Some b"
| "address_of (AAAAResource b) = Some b"
| "address_of _ = None"

definition qtype_name :: "qtype \<Rightarrow> string" where
  "qtype_name t = (case t of TypeA \<Rightarrow> ''TypeA'' | TypeAAAA \<Rightarrow> ''TypeAAAA'' | TypeHTTPS \<Rightarrow> ''TypeHTTPS'')"

fun lookup_loop :: "doh_env \<Rightarrow> doh \<Rightarrow> string \<Rightarrow> qtype list \<Rightarrow> string list \<Rightarrow> gerr list \<Rightarrow> doh_sent
    \<Rightarrow> (string list \<times> gerr list) \<times> doh_sent" where
  "lookup_loop env r name [] ips errs sent = ((ips, errs), sent)"
| "lookup_loop env r name (t # ts) ips errs sent =
     (case doh_query env r name t sent of
        (Inl e, sent) \<Rightarrow> lookup_loop env r name ts ips (errs @ [Errorf ''%s: %w'' [AStr (qtype_name t), AErr e]]) sent
      | (Inr answers, sent) \<Rightarrow> lookup_loop env r name ts (ips @ List.map_filter address_of answers) errs sent)"

definition lookup_ip :: "doh_env \<Rightarrow> doh \<Rightarrow> string \<Rightarrow> doh_sent \<Rightarrow> string list result \<times> doh_sent" where
  "lookup_ip env r name sent =
     (case lookup_loop env r name [TypeA, TypeAAAA] [] [] sent of
        ((ips, errs), sent) \<Rightarrow>
          (if ips = [] then
             Inl (if errs \<noteq> [] then Errorf ''no address for %s over DoH: %w'' [AStr name, AErr (ErrJoin errs)]
                  else Errorf ''no address for %s over DoH'' [AStr name])
           else Inr ips, sent))"

definition ech_key :: nat where "ech_key = 5"

fun ech_param :: "rr_body list \<Rightarrow> string option" where
  "ech_param [] = None"
| "ech_param (a # as) =
     (case find (\<lambda>p. fst p = ech_key) (case a of HTTPSResource ps \<Rightarrow> ps | SVCBResource ps \<Rightarrow> ps | _ \<Rightarrow> []) of
        Some p \<Rightarrow> Some (snd p)
      | None \<Rightarrow> ech_param as)"

text \<open>A record without the parameter gives nil, which is an empty list here.\<close>

definition lookup_ech :: "doh_env \<Rightarrow> doh \<Rightarrow> string \<Rightarrow> doh_sent \<Rightarrow> string result \<times> doh_sent" where
  "lookup_ech env r name sent =
     (case doh_query env r name TypeHTTPS sent of
        (Inl e, sent) \<Rightarrow> (Inl e, sent)
      | (Inr answers, sent) \<Rightarrow> (Inr (case ech_param answers of None \<Rightarrow> [] | Some c \<Rightarrow> c), sent))"

section \<open>What a caller relies on\<close>

text \<open>
  The contract of \<open>EndpointResolver\<close>: addresses are never an empty success, and looking something
  up only moves the resolver's state along the relation \<open>asks\<close> (which requests it may add).
\<close>

locale endpoint_resolver =
  fixes lookup :: "string \<Rightarrow> 's \<Rightarrow> string list result \<times> 's"
    and lookup_config :: "string \<Rightarrow> 's \<Rightarrow> string result \<times> 's"
    and asks :: "'s \<Rightarrow> 's \<Rightarrow> bool"
  assumes some_address: "lookup name s = (Inr ips, s') \<Longrightarrow> ips \<noteq> []"
    and lookup_asks: "lookup name s = (r, s') \<Longrightarrow> asks s s'"
    and config_asks: "lookup_config name s = (c, s') \<Longrightarrow> asks s s'"
    and asks_refl: "asks s s"
    and asks_trans: "asks s s1 \<Longrightarrow> asks s1 s2 \<Longrightarrow> asks s s2"

section \<open>What is sent and what is believed\<close>

lemma doh_exchange_cases:
  assumes "doh_exchange env u wire sent = (r, sent')"
  shows "sent' = sent \<or> sent' = sent @ [(u, wire)]"
    "r = Inr answers \<Longrightarrow> sent' = sent @ [(u, wire)] \<and> (\<exists>reply. de_http env sent u wire = Inr reply \<and> doh_answer env u reply = Inr answers)"
  using assms by (auto simp: doh_exchange_def res_simps split: sum.splits)

text \<open>The requests of one query: its body to upstreams of the list, each at most once, in order.\<close>

definition queried :: "doh \<Rightarrow> string \<Rightarrow> doh_sent \<Rightarrow> bool" where
  "queried r wire reqs \<longleftrightarrow> subseq (map fst reqs) r \<and> (\<forall>(u, b) \<in> set reqs. b = wire)"

lemma ask_upstreams_queried:
  "ask_upstreams env wire us errs sent = (res, sent') \<Longrightarrow> \<exists>reqs. sent' = sent @ reqs \<and> queried us wire reqs"
proof (induction us arbitrary: errs sent)
  case Nil
  then show ?case by (simp add: queried_def)
next
  case (Cons u us)
  obtain r s1 where x: "doh_exchange env u wire sent = (r, s1)" by fastforce
  note c = doh_exchange_cases(1) [OF x]
  have one: "\<exists>reqs. s1 = sent @ reqs \<and> map fst reqs \<in> {[], [u]} \<and> (\<forall>(u, b) \<in> set reqs. b = wire)"
    using c by auto
  then obtain q where q: "s1 = sent @ q" "map fst q = [] \<or> map fst q = [u]" "\<forall>(u, b) \<in> set q. b = wire" by auto
  show ?case
  proof (cases r)
    case (Inr a)
    with Cons.prems x q show ?thesis by (intro exI [of _ q]) (auto simp: queried_def)
  next
    case (Inl e)
    with Cons.prems x obtain reqs where "sent' = s1 @ reqs" "queried us wire reqs"
      using Cons.IH [of "errs @ [Errorf ''%s: %w'' [AStr u, AErr e]]" s1] by auto
    with q show ?thesis
      by (intro exI [of _ "q @ reqs"]) (auto simp: queried_def split: prod.splits)
  qed
qed

lemma ask_upstreams_believes:
  "ask_upstreams env wire us errs sent = (Inr answers, sent') \<Longrightarrow>
   \<exists>u reply s0. u \<in> set us \<and> de_http env s0 u wire = Inr reply \<and> doh_answer env u reply = Inr answers
     \<and> sent' = s0 @ [(u, wire)]"
proof (induction us arbitrary: errs sent)
  case (Cons u us)
  obtain r s1 where x: "doh_exchange env u wire sent = (r, s1)" by fastforce
  show ?case
  proof (cases r)
    case (Inr a)
    with Cons.prems x doh_exchange_cases(2) [OF x Inr] show ?thesis by auto
  next
    case (Inl e)
    with Cons.prems x Cons.IH [of "errs @ [Errorf ''%s: %w'' [AStr u, AErr e]]" s1] show ?thesis by auto
  qed
qed simp

lemma doh_query_queried:
  assumes "doh_query env r name t sent = (res, sent')"
  shows "\<exists>reqs. sent' = sent @ reqs \<and> length reqs \<le> length r \<and> (\<forall>(u, b) \<in> set reqs. u \<in> set r)"
proof (cases "build_query env name t")
  case (Inl e)
  then show ?thesis using assms by (simp add: doh_query_def)
next
  case (Inr wire)
  obtain x s1 where a: "ask_upstreams env wire r [] sent = (x, s1)" by fastforce
  then have "sent' = s1" using assms Inr by (auto simp: doh_query_def split: sum.splits)
  moreover obtain reqs where q: "s1 = sent @ reqs" "queried r wire reqs" using ask_upstreams_queried [OF a] by blast
  moreover have "length reqs \<le> length r" "\<forall>(u, b) \<in> set reqs. u \<in> set r"
    using q(2) list_emb_length [of "(=)" "map fst reqs" r] list_emb_set [of "(=)" "map fst reqs" r]
    by (auto simp: queried_def) (metis fst_conv image_eqI)
  ultimately show ?thesis by blast
qed

text \<open>An answer is believed only from a reply an upstream gave to this very question.\<close>

definition believed :: "doh_env \<Rightarrow> doh \<Rightarrow> string \<Rightarrow> qtype \<Rightarrow> rr_body list \<Rightarrow> bool" where
  "believed env r name t answers \<longleftrightarrow> (\<exists>wire u reply s0. build_query env name t = Inr wire \<and> u \<in> set r
     \<and> de_http env s0 u wire = Inr reply \<and> doh_answer env u reply = Inr answers)"

lemma doh_query_believed: "doh_query env r name t sent = (Inr answers, sent') \<Longrightarrow> believed env r name t answers"
  using ask_upstreams_believes
  by (fastforce simp: doh_query_def believed_def split: sum.splits prod.splits)

lemma lookup_loop_spec:
  "lookup_loop env r name ts ips errs sent = ((ips', errs'), sent') \<Longrightarrow>
   (\<exists>reqs. sent' = sent @ reqs \<and> length reqs \<le> length ts * length r \<and> (\<forall>(u, b) \<in> set reqs. u \<in> set r))
   \<and> (\<forall>ip \<in> set ips'. ip \<in> set ips \<or> (\<exists>t answers a. t \<in> set ts \<and> believed env r name t answers \<and> a \<in> set answers \<and> address_of a = Some ip))"
proof (induction ts arbitrary: ips errs sent)
  case Nil
  then show ?case by simp
next
  case (Cons t ts)
  obtain x s1 where q: "doh_query env r name t sent = (x, s1)" by fastforce
  obtain q1 where q1: "s1 = sent @ q1" "length q1 \<le> length r" "\<forall>(u, b) \<in> set q1. u \<in> set r"
    using doh_query_queried [OF q] by blast
  obtain ips1 errs1 where l: "lookup_loop env r name ts ips1 errs1 s1 = ((ips', errs'), sent')"
    and i1: "ips1 = ips \<or> (\<exists>answers. x = Inr answers \<and> ips1 = ips @ List.map_filter address_of answers)"
    using Cons.prems q by (cases x) auto
  from Cons.IH [OF l] obtain q2 where q2: "sent' = s1 @ q2" "length q2 \<le> length ts * length r" "\<forall>(u, b) \<in> set q2. u \<in> set r"
    and ih: "\<forall>ip \<in> set ips'. ip \<in> set ips1 \<or> (\<exists>t answers a. t \<in> set ts \<and> believed env r name t answers \<and> a \<in> set answers \<and> address_of a = Some ip)"
    by blast
  have "\<exists>reqs. sent' = sent @ reqs \<and> length reqs \<le> length (t # ts) * length r \<and> (\<forall>(u, b) \<in> set reqs. u \<in> set r)"
    using q1 q2 by (intro exI [of _ "q1 @ q2"]) auto
  moreover have "ip \<in> set ips \<or> (\<exists>t' answers a. t' \<in> set (t # ts) \<and> believed env r name t' answers \<and> a \<in> set answers \<and> address_of a = Some ip)"
    if "ip \<in> set ips1" for ip
  proof (cases "ip \<in> set ips")
    case False
    with that i1 obtain answers where a: "x = Inr answers" "ip \<in> set (List.map_filter address_of answers)" by auto
    then obtain a where "a \<in> set answers" "address_of a = Some ip" by (auto simp: map_filter_def)
    moreover have "believed env r name t answers" using doh_query_believed q a(1) by blast
    ultimately show ?thesis by auto
  qed simp
  ultimately show ?case using ih by fastforce
qed

lemma lookup_ip_spec:
  assumes "lookup_ip env r name sent = (res, sent')"
  shows "\<exists>reqs. sent' = sent @ reqs \<and> length reqs \<le> 2 * length r \<and> (\<forall>(u, b) \<in> set reqs. u \<in> set r)"
    "res = Inr ips \<Longrightarrow> ips \<noteq> [] \<and> (\<forall>ip \<in> set ips. \<exists>t answers a. t \<in> {TypeA, TypeAAAA} \<and> believed env r name t answers
        \<and> a \<in> set answers \<and> address_of a = Some ip)"
proof -
  obtain ips' errs' s1 where l: "lookup_loop env r name [TypeA, TypeAAAA] [] [] sent = ((ips', errs'), s1)" by (metis prod.exhaust)
  have r: "sent' = s1" "res = Inr ips \<Longrightarrow> ips = ips' \<and> ips' \<noteq> []"
    using assms l by (auto simp: lookup_ip_def split: if_splits)
  from lookup_loop_spec [OF l] r(1) show "\<exists>reqs. sent' = sent @ reqs \<and> length reqs \<le> 2 * length r \<and> (\<forall>(u, b) \<in> set reqs. u \<in> set r)"
    by (simp add: mult_2)
  show "ips \<noteq> [] \<and> (\<forall>ip \<in> set ips. \<exists>t answers a. t \<in> {TypeA, TypeAAAA} \<and> believed env r name t answers
        \<and> a \<in> set answers \<and> address_of a = Some ip)" if "res = Inr ips"
    using lookup_loop_spec [OF l] r(2) [OF that] by simp
qed

text \<open>The resolver keeps the contract: it only ever asks its own upstreams.\<close>

definition asks_only :: "doh \<Rightarrow> doh_sent \<Rightarrow> doh_sent \<Rightarrow> bool" where
  "asks_only r s s' \<longleftrightarrow> (\<exists>reqs. s' = s @ reqs \<and> (\<forall>(u, b) \<in> set reqs. u \<in> set r))"

lemma lookup_ech_sent: "lookup_ech env r name s = (c, s') \<Longrightarrow> \<exists>res. doh_query env r name TypeHTTPS s = (res, s')"
  by (auto simp: lookup_ech_def split: sum.splits prod.splits)

interpretation doh: endpoint_resolver "lookup_ip env r" "lookup_ech env r" "asks_only r" for env r
proof unfold_locales
  fix name s s' s1 s2 ips res c
  show "lookup_ip env r name s = (Inr ips, s') \<Longrightarrow> ips \<noteq> []" by (rule lookup_ip_spec(2) [THEN conjunct1, OF _ refl])
  show "asks_only r s s'" if "lookup_ip env r name s = (res, s')"
    using lookup_ip_spec(1) [OF that] by (auto simp: asks_only_def)
  show "asks_only r s s'" if "lookup_ech env r name s = (c, s')"
    using lookup_ech_sent [OF that] doh_query_queried [of env r name TypeHTTPS s] by (fastforce simp: asks_only_def)
  show "asks_only r s s" by (simp add: asks_only_def)
  show "asks_only r s s1 \<Longrightarrow> asks_only r s1 s2 \<Longrightarrow> asks_only r s s2"
    unfolding asks_only_def by (elim exE conjE) (rule_tac x = "reqs @ reqsa" in exI, auto)
qed

section \<open>Properties\<close>

lemma new_doh_upstreams:
  assumes "new_doh env us = Inr r" "u \<in> set r"
  shows "\<exists>x. de_url env u = Inr x \<and> url_scheme x = ''https'' \<and> \<not> url_user x \<and> is_ip (url_hostname x)"
  using assms by (auto simp: new_doh_def validate_upstreams_def Let_def res_simps upstream_ok_def)


text \<open>A resolver whose first upstream fails and whose second knows an A record.\<close>

definition toy_doh_env :: doh_env where
  "toy_doh_env = \<lparr>de_url = (\<lambda>s. Inr \<lparr>url_scheme = ''https'', url_user = False, url_host = ''192.0.2.9'',
       url_hostname = ''192.0.2.9'', url_path = [], url_text = s\<rparr>),
     de_request = (\<lambda>_. Inr ()),
     de_http = (\<lambda>_ u w. if u = ''a'' then Inl (ErrLib ''dial'' u) else Inr \<lparr>dr_code = 200, dr_status = ''200 OK'',
       dr_content_type = ''application/dns-message'', dr_body = Inr w\<rparr>),
     de_media = Inr, de_pack = (\<lambda>n t. if t = TypeA then Inr n else Inl (ErrLib ''pack'' n)),
     de_unpack = (\<lambda>p. Inr \<lparr>dm_response = True, dm_rcode = 0, dm_answers = [AResource (replicate 4 CHR 0x01)]\<rparr>)\<rparr>"


end
