(* ===== verification/Transport.thy ===== *)
theory Transport
  imports Resolver Pinning
begin

text \<open>
  \<open>internal/control/transport.go\<close>: the HTTP client that reaches the control plane. Of Go's HTTP
  transport only what the program configures is kept: the TLS configuration, the dial function
  and whether the ECH dialer takes over. The operating system's dialer and one TLS handshake are
  parameters; the handshake runs the configured callbacks as \<open>crypto/tls\<close> documents it:
  \<open>VerifyPeerCertificate\<close>, then \<open>VerifyConnection\<close>, and neither when the server rejected ECH.
\<close>

section \<open>Configuration\<close>

record tls_config =
  tc_server_name :: string
  tc_pin_mode :: pin_mode
  tc_ech :: string
  tc_min13 :: bool
  tc_require_ech :: bool
  tc_protos :: "string list"

text \<open>\<open>'s\<close> is the resolver's state.\<close>

record 's hardening =
  h_lookup :: "((string \<Rightarrow> 's \<Rightarrow> string list result \<times> 's) \<times> (string \<Rightarrow> 's \<Rightarrow> string result \<times> 's)) option"
  h_ech :: bool
  h_pins :: bool
  h_pin_mode :: pin_mode

record 's http_transport =
  tr_tls :: tls_config
  tr_lookup :: "(string \<Rightarrow> 's \<Rightarrow> string list result \<times> 's) option"
  tr_ech_dialer :: bool

definition configure_ech :: "string \<Rightarrow> 's hardening \<Rightarrow> tls_config \<Rightarrow> 's \<Rightarrow> tls_config result \<times> 's" where
  "configure_ech host h cfg s =
     (if \<not> h_ech h then (Inr cfg, s)
      else case h_lookup h of
             None \<Rightarrow> (Inl (Errorf ''ECH is enabled but no DoH resolver is configured'' []), s)
           | Some (_, lookup_config) \<Rightarrow>
               (case lookup_config host s of
                  (Inl e, s) \<Rightarrow> (Inl (Errorf ''fetch ECH config for %s: %w'' [AStr host, AErr e]), s)
                | (Inr ech, s) \<Rightarrow>
                    (if ech = [] then (Inl (Errorf ''ECH is required but %s publishes no ECH config'' [AStr host]), s)
                     else (Inr (cfg\<lparr>tc_ech := ech, tc_min13 := True, tc_require_ech := True\<rparr>), s))))"

definition endpoint_host :: "(string \<Rightarrow> url result) \<Rightarrow> string \<Rightarrow> string result" where
  "endpoint_host parse endpoint =
     rbind (rwrap (\<lambda>e. Errorf ''bad control endpoint %q: %w'' [AStr endpoint, AErr e]) (parse endpoint)) (\<lambda>u.
     rbind (rcheck (url_scheme u = ''https'' \<and> \<not> url_user u)
       (Errorf ''bad control endpoint %q: HTTPS without user info is required'' [AStr endpoint])) (\<lambda>_.
     let host = to_lower (url_hostname u)
     in rbind (rcheck (host \<noteq> []) (Errorf ''bad control endpoint %q: no host'' [AStr endpoint])) (\<lambda>_.
        Inr host)))"

definition base_tls :: "string \<Rightarrow> 's hardening \<Rightarrow> tls_config" where
  "base_tls host h = \<lparr>tc_server_name = host, tc_pin_mode = (if h_pins h then h_pin_mode h else ModeOff),
     tc_ech = [], tc_min13 = False, tc_require_ech = False, tc_protos = []\<rparr>"

definition use_ech_dialer :: "'s http_transport \<Rightarrow> 's http_transport" where
  "use_ech_dialer tr = tr\<lparr>tr_tls := (tr_tls tr)\<lparr>tc_protos := [''h2'', ''http/1.1'']\<rparr>, tr_ech_dialer := True\<rparr>"

definition new_hardened_client :: "(string \<Rightarrow> url result) \<Rightarrow> string \<Rightarrow> 's hardening \<Rightarrow> 's
    \<Rightarrow> 's http_transport result \<times> 's" where
  "new_hardened_client parse endpoint h s =
     wbind (endpoint_host parse endpoint, s) (\<lambda>host s.
     wbind (configure_ech host h (base_tls host h) s) (\<lambda>cfg s.
     let tr = \<lparr>tr_tls = cfg, tr_lookup = map_option fst (h_lookup h), tr_ech_dialer = False\<rparr>
     in (Inr (if tc_ech cfg \<noteq> [] then use_ech_dialer tr else tr), s)))"

section \<open>Dialling\<close>

text \<open>The addresses handed to the operating system, in order, and the one that connected.\<close>

fun dial_each :: "(string \<Rightarrow> unit result) \<Rightarrow> string \<Rightarrow> string list \<Rightarrow> gerr option \<Rightarrow> gerr option + string" where
  "dial_each net port [] last_err = Inl last_err"
| "dial_each net port (ip # ips) last_err =
     (let addr = join_host_port (ip_text ip) port
      in case net addr of
           Inr _ \<Rightarrow> Inr addr
         | Inl e \<Rightarrow> dial_each net port ips (Some e))"

text \<open>\<open>%w\<close> of a nil error leaves no error to unwrap.\<close>

definition dial_via_resolver :: "(string \<Rightarrow> 's \<Rightarrow> string list result \<times> 's) \<Rightarrow> (string \<Rightarrow> unit result) \<Rightarrow> string \<Rightarrow> 's
    \<Rightarrow> string result \<times> 's" where
  "dial_via_resolver lookup net addr s =
     (case split_host_port addr of
        Inl e \<Rightarrow> (Inl e, s)
      | Inr (host, port) \<Rightarrow>
          if is_ip host then (rbind (net addr) (\<lambda>_. Inr addr), s)
          else (case lookup host s of
                  (Inl e, s) \<Rightarrow> (Inl e, s)
                | (Inr ips, s) \<Rightarrow>
                    (case dial_each net port ips None of
                       Inr a \<Rightarrow> (Inr a, s)
                     | Inl last_err \<Rightarrow>
                         (Inl (Errorf ''no reachable address for %s: %w''
                            (AStr host # (case last_err of None \<Rightarrow> [] | Some e \<Rightarrow> [AErr e]))), s))))"

definition dial_addr :: "'s http_transport \<Rightarrow> (string \<Rightarrow> unit result) \<Rightarrow> string \<Rightarrow> 's \<Rightarrow> string result \<times> 's" where
  "dial_addr tr net addr s =
     (case tr_lookup tr of
        None \<Rightarrow> (rbind (net addr) (\<lambda>_. Inr addr), s)
      | Some lookup \<Rightarrow> dial_via_resolver lookup net addr s)"

section \<open>Handshakes\<close>

datatype hs_result =
    HsFail gerr
  | HsRejected string
  | HsDone bool "string list list"

record tls_env =
  te_net :: "string \<Rightarrow> unit result"
  te_handshake :: "nat \<Rightarrow> tls_config \<Rightarrow> string \<Rightarrow> hs_result"
  te_sha256 :: "string \<Rightarrow> string"

text \<open>A connection: the configuration it was made with, and what the handshake showed.\<close>

record conn =
  cn_addr :: string
  cn_config :: tls_config
  cn_ech_accepted :: bool
  cn_chains :: "string list list"

text \<open>\<open>ds_offered\<close> lists the ECH configuration offered in each handshake so far.\<close>

record 's dial_state =
  ds_res :: 's
  ds_pins :: pin_state
  ds_config :: string
  ds_offered :: "string list"

definition verify_peer :: "tls_env \<Rightarrow> tls_config \<Rightarrow> string list list \<Rightarrow> pin_state \<Rightarrow> unit result \<times> pin_state" where
  "verify_peer env cfg chs ps =
     (case verifier (te_sha256 env) (tc_pin_mode cfg) (tc_server_name cfg) of
        None \<Rightarrow> (Inr (), ps)
      | Some v \<Rightarrow> v chs ps)"

definition require_ech :: "bool \<Rightarrow> unit result" where
  "require_ech accepted =
     rcheck accepted (Errorf ''ECH is required but was not accepted by the control endpoint'' [])"

definition handshake :: "tls_env \<Rightarrow> tls_config \<Rightarrow> string \<Rightarrow> 's dial_state \<Rightarrow> conn result \<times> 's dial_state" where
  "handshake env cfg addr st =
     (let n = length (ds_offered st); st = st\<lparr>ds_offered := ds_offered st @ [tc_ech cfg]\<rparr>
      in case te_handshake env n cfg addr of
           HsFail e \<Rightarrow> (Inl e, st)
         | HsRejected retry \<Rightarrow> (Inl (ECHRejectionError retry), st)
         | HsDone acc chs \<Rightarrow>
             (case verify_peer env cfg chs (ds_pins st) of
                (Inl e, ps) \<Rightarrow> (Inl e, st\<lparr>ds_pins := ps\<rparr>)
              | (Inr _, ps) \<Rightarrow>
                  (rbind (if tc_require_ech cfg then require_ech acc else Inr ()) (\<lambda>_.
                     Inr \<lparr>cn_addr = addr, cn_config = cfg, cn_ech_accepted = acc, cn_chains = chs\<rparr>),
                   st\<lparr>ds_pins := ps\<rparr>)))"

text \<open>One attempt of the ECH dialer: the connection or the error, and a retry configuration if any.\<close>

definition attempt :: "tls_env \<Rightarrow> 's http_transport \<Rightarrow> string \<Rightarrow> string \<Rightarrow> 's dial_state
    \<Rightarrow> (conn result \<times> string option) \<times> 's dial_state" where
  "attempt env tr addr ech st =
     (case dial_addr tr (te_net env) addr (ds_res st) of
        (Inl e, s) \<Rightarrow> ((Inl e, None), st\<lparr>ds_res := s\<rparr>)
      | (Inr target, s) \<Rightarrow>
          (case handshake env ((tr_tls tr)\<lparr>tc_ech := ech\<rparr>) target (st\<lparr>ds_res := s\<rparr>) of
             (Inr c, st) \<Rightarrow> ((Inr c, None), st)
           | (Inl e, st) \<Rightarrow>
               ((Inl e, case as_ech_rejection e of
                          Some retry \<Rightarrow> (if retry \<noteq> [] then Some retry else None)
                        | None \<Rightarrow> None), st)))"

definition current :: "'s dial_state \<Rightarrow> string" where
  "current st = ds_config st"

definition adopt :: "string \<Rightarrow> 's dial_state \<Rightarrow> 's dial_state" where
  "adopt config st = st\<lparr>ds_config := config\<rparr>"

definition dial_tls :: "tls_env \<Rightarrow> 's http_transport \<Rightarrow> string \<Rightarrow> 's dial_state \<Rightarrow> conn result \<times> 's dial_state" where
  "dial_tls env tr addr st =
     (case attempt env tr addr (current st) st of
        ((Inr c, _), st) \<Rightarrow> (Inr c, st)
      | ((Inl e, None), st) \<Rightarrow> (Inl e, st)
      | ((Inl e, Some retry), st) \<Rightarrow>
          (case attempt env tr addr retry (adopt retry st) of ((r, _), st) \<Rightarrow> (r, st)))"

text \<open>Without ECH the transport dials and shakes hands itself; its configuration already names a server.\<close>

definition connect :: "tls_env \<Rightarrow> 's http_transport \<Rightarrow> string \<Rightarrow> 's dial_state \<Rightarrow> conn result \<times> 's dial_state" where
  "connect env tr addr st =
     (if tr_ech_dialer tr then dial_tls env tr addr st
      else case dial_addr tr (te_net env) addr (ds_res st) of
             (Inl e, s) \<Rightarrow> (Inl e, st\<lparr>ds_res := s\<rparr>)
           | (Inr target, s) \<Rightarrow> handshake env (tr_tls tr) target (st\<lparr>ds_res := s\<rparr>))"

section \<open>One handshake\<close>

text \<open>What a configuration demands of every connection made with it.\<close>

definition meets :: "(string \<Rightarrow> string) \<Rightarrow> tls_config \<Rightarrow> conn \<Rightarrow> pin_state \<Rightarrow> bool" where
  "meets sha256 cfg c ps \<longleftrightarrow>
     tc_server_name (cn_config c) = tc_server_name cfg \<and>
     (tc_require_ech cfg \<longrightarrow> cn_ech_accepted c) \<and>
     (tc_pin_mode cfg \<noteq> ModeOff \<longrightarrow>
        (\<exists>chain \<in> set (cn_chains c). \<exists>cert \<in> set chain. spki sha256 cert \<in> set (store_get ps (tc_server_name cfg))))"

lemma verify_peer_pinned:
  assumes "verify_peer env cfg chs ps = (Inr u, ps')" "tc_pin_mode cfg \<noteq> ModeOff"
  shows "\<exists>chain \<in> set chs. \<exists>cert \<in> set chain. spki (te_sha256 env) cert \<in> set (store_get ps' (tc_server_name cfg))"
proof -
  let ?h = "tc_server_name cfg"
  obtain v where v: "verifier (te_sha256 env) (tc_pin_mode cfg) ?h = Some v" using assms(2) by (simp add: verifier_def)
  then have r: "v chs ps = (Inr (), ps')" using assms(1) by (simp add: verify_peer_def)
  note ok = verifier_Inr [OF v r]
  show ?thesis
  proof (cases "store_get ps ?h = []")
    case True
    then have "store_get ps' ?h = sort (chain_pins (te_sha256 env) chs)" "concat chs \<noteq> []" using ok by auto
    then obtain cert where "cert \<in> set (concat chs)" by (cases "concat chs") auto
    then show ?thesis using chain_pins_props [of "te_sha256 env" chs] \<open>store_get ps' ?h = _\<close> by force
  next
    case False
    then show ?thesis using ok by auto
  qed
qed

lemma handshake_res: "handshake env cfg addr st = (r, st') \<Longrightarrow> ds_res st' = ds_res st \<and> ds_config st' = ds_config st
    \<and> ds_offered st' = ds_offered st @ [tc_ech cfg]"
  by (auto simp: handshake_def Let_def split: hs_result.splits prod.splits sum.splits)

lemma handshake_meets:
  assumes "handshake env cfg addr st = (Inr c, st')"
  shows "meets (te_sha256 env) cfg c (ds_pins st') \<and> cn_config c = cfg"
  using assms by (auto simp: handshake_def Let_def meets_def require_ech_def res_simps
      split: hs_result.splits prod.splits sum.splits if_splits dest: verify_peer_pinned)

lemma attempt_meets:
  assumes "attempt env tr addr ech st = ((r, retry), st')"
  shows "r = Inr c \<Longrightarrow> meets (te_sha256 env) (tr_tls tr) c (ds_pins st') \<and> tc_ech (cn_config c) = ech"
    "\<exists>n \<le> 1. ds_offered st' = ds_offered st @ replicate n ech"
    "retry = Some l \<Longrightarrow> l \<noteq> []"
proof -
  show "meets (te_sha256 env) (tr_tls tr) c (ds_pins st') \<and> tc_ech (cn_config c) = ech" if "r = Inr c"
    using assms that handshake_meets [of env "(tr_tls tr)\<lparr>tc_ech := ech\<rparr>" _ _ c st']
    by (auto simp: attempt_def meets_def split: sum.splits prod.splits)
  show "\<exists>n \<le> 1. ds_offered st' = ds_offered st @ replicate n ech"
    using assms by (auto simp: attempt_def split: sum.splits prod.splits dest!: handshake_res
        intro: exI [of _ 0] exI [of _ "Suc 0"])
  show "retry = Some l \<Longrightarrow> l \<noteq> []"
    using assms by (auto simp: attempt_def split: sum.splits prod.splits option.splits if_splits)
qed

section \<open>What the resolver is asked\<close>

context endpoint_resolver
begin

lemma configure_asks:
  "configure_ech host h cfg s = (r, s') \<Longrightarrow> h_lookup h \<in> {None, Some (lookup, lookup_config)} \<Longrightarrow> asks s s'"
  by (auto simp: configure_ech_def asks_refl split: if_splits option.splits prod.splits sum.splits intro: config_asks)

lemma client_asks:
  "new_hardened_client parse endpoint h s = (r, s') \<Longrightarrow> h_lookup h \<in> {None, Some (lookup, lookup_config)} \<Longrightarrow> asks s s'"
  by (cases "endpoint_host parse endpoint"; cases "configure_ech (projr (endpoint_host parse endpoint)) h
      (base_tls (projr (endpoint_host parse endpoint)) h) s")
    (auto simp: new_hardened_client_def wbind_def asks_refl Let_def dest!: configure_asks split: sum.splits)

lemma dial_asks: "dial_via_resolver lookup net addr s = (r, s') \<Longrightarrow> asks s s'"
  by (auto simp: dial_via_resolver_def asks_refl split: sum.splits prod.splits if_splits intro: lookup_asks)

lemma dial_addr_asks:
  "dial_addr tr net addr s = (r, s') \<Longrightarrow> tr_lookup tr \<in> {None, Some lookup} \<Longrightarrow> asks s s'"
  by (auto simp: dial_addr_def asks_refl split: option.splits intro: dial_asks)

lemma attempt_asks:
  "attempt env tr addr ech st = (x, st') \<Longrightarrow> tr_lookup tr \<in> {None, Some lookup} \<Longrightarrow> asks (ds_res st) (ds_res st')"
  by (auto simp: attempt_def dest!: dial_addr_asks handshake_res split: sum.splits prod.splits)

lemma connect_asks:
  assumes "connect env tr addr st = (r, st')" "tr_lookup tr \<in> {None, Some lookup}"
  shows "asks (ds_res st) (ds_res st')"
proof -
  have "asks (ds_res st) (ds_res st')" if "dial_tls env tr addr st = (r, st')"
    using that assms(2) by (auto simp: dial_tls_def adopt_def dest!: attempt_asks
        split: prod.splits sum.splits option.splits intro: asks_trans)
  then show ?thesis
    using assms by (auto simp: connect_def dest!: dial_addr_asks handshake_res split: if_splits sum.splits prod.splits)
qed

end


section \<open>Properties\<close>

lemma configure_ech_cases:
  assumes "configure_ech host h cfg s = (Inr cfg', s')"
  shows "tc_server_name cfg' = tc_server_name cfg \<and> tc_pin_mode cfg' = tc_pin_mode cfg
    \<and> (h_ech h \<longrightarrow> tc_require_ech cfg' \<and> tc_min13 cfg' \<and> tc_ech cfg' \<noteq> [])"
  using assms by (auto simp: configure_ech_def split: if_splits option.splits prod.splits sum.splits)

lemma new_client_config:
  assumes "new_hardened_client parse endpoint h s = (Inr tr, s')"
  shows "\<exists>u. parse endpoint = Inr u \<and> url_scheme u = ''https'' \<and> \<not> url_user u \<and> url_hostname u \<noteq> []
    \<and> tc_server_name (tr_tls tr) = to_lower (url_hostname u)
    \<and> tc_pin_mode (tr_tls tr) = (if h_pins h then h_pin_mode h else ModeOff)
    \<and> (h_ech h \<longrightarrow> tc_require_ech (tr_tls tr) \<and> tr_ech_dialer tr)
    \<and> tr_lookup tr = map_option fst (h_lookup h)"
proof -
  obtain host where host: "endpoint_host parse endpoint = Inr host"
    using assms by (cases "endpoint_host parse endpoint") (auto simp: new_hardened_client_def wbind_def)
  obtain cfg s1 where cfg: "configure_ech host h (base_tls host h) s = (Inr cfg, s1)"
    using assms host by (cases "configure_ech host h (base_tls host h) s"; cases "fst (configure_ech host h (base_tls host h) s)")
      (auto simp: new_hardened_client_def wbind_def)
  have tr: "tr = \<lparr>tr_tls = (if tc_ech cfg \<noteq> [] then cfg\<lparr>tc_protos := [''h2'', ''http/1.1'']\<rparr> else cfg),
      tr_lookup = map_option fst (h_lookup h), tr_ech_dialer = (tc_ech cfg \<noteq> [])\<rparr>"
    using assms host cfg by (auto simp: new_hardened_client_def use_ech_dialer_def wbind_def Let_def split: if_splits)
  show ?thesis
    using host configure_ech_cases [OF cfg]
    by (auto simp: tr endpoint_host_def base_tls_def res_simps Let_def)
qed

lemma dial_tls_meets:
  assumes "dial_tls env tr addr st = (r, st')"
  shows "(\<exists>offers. ds_offered st' = ds_offered st @ offers \<and> length offers \<le> 2)
    \<and> (\<forall>c. r = Inr c \<longrightarrow> meets (te_sha256 env) (tr_tls tr) c (ds_pins st'))"
proof -
  obtain r1 retry st1 where a1: "attempt env tr addr (current st) st = ((r1, retry), st1)"
    by (metis prod.exhaust)
  obtain n where n: "n \<le> 1" "ds_offered st1 = ds_offered st @ replicate n (current st)"
    using attempt_meets(2) [OF a1] by blast
  show ?thesis
  proof (cases "\<exists>e l. r1 = Inl e \<and> retry = Some l")
    case False
    then have "r = r1 \<and> st' = st1" using assms a1 by (auto simp: dial_tls_def split: sum.splits option.splits)
    then show ?thesis using n attempt_meets(1) [OF a1] by auto
  next
    case True
    then obtain e l where el: "r1 = Inl e" "retry = Some l" by blast
    obtain x where a2: "attempt env tr addr l (adopt l st1) = ((r, x), st')"
      using assms a1 el by (auto simp: dial_tls_def split: prod.splits)
    obtain m where "m \<le> 1" "ds_offered st' = ds_offered st1 @ replicate m l"
      using attempt_meets(2) [OF a2] by (auto simp: adopt_def)
    then show ?thesis using n attempt_meets(1) [OF a2] by auto
  qed
qed

lemma client_connects:
  assumes "new_hardened_client parse endpoint h s = (Inr tr, s')" "connect env tr addr st = (r, st')"
  shows "\<exists>u. parse endpoint = Inr u \<and> url_scheme u = ''https'' \<and> \<not> url_user u
    \<and> (\<exists>offers. ds_offered st' = ds_offered st @ offers \<and> length offers \<le> 2)
    \<and> (\<forall>c. r = Inr c \<longrightarrow> tc_server_name (cn_config c) = to_lower (url_hostname u)
        \<and> (h_ech h \<longrightarrow> cn_ech_accepted c)
        \<and> (h_pins h \<and> h_pin_mode h \<noteq> ModeOff \<longrightarrow> (\<exists>chain \<in> set (cn_chains c). \<exists>cert \<in> set chain.
             spki (te_sha256 env) cert \<in> set (store_get (ds_pins st') (to_lower (url_hostname u))))))"
proof -
  from new_client_config [OF assms(1)] obtain u where u: "parse endpoint = Inr u" "url_scheme u = ''https''" "\<not> url_user u"
    "tc_server_name (tr_tls tr) = to_lower (url_hostname u)"
    "tc_pin_mode (tr_tls tr) = (if h_pins h then h_pin_mode h else ModeOff)"
    "h_ech h \<longrightarrow> tc_require_ech (tr_tls tr) \<and> tr_ech_dialer tr" by blast
  have "(\<exists>offers. ds_offered st' = ds_offered st @ offers \<and> length offers \<le> 2)
    \<and> (\<forall>c. r = Inr c \<longrightarrow> meets (te_sha256 env) (tr_tls tr) c (ds_pins st'))"
  proof (cases "tr_ech_dialer tr")
    case True
    then show ?thesis using assms(2) dial_tls_meets by (simp add: connect_def)
  next
    case False
    then show ?thesis
      using assms(2) by (fastforce simp: connect_def split: sum.splits prod.splits dest: handshake_res handshake_meets)
  qed
  then show ?thesis
    using u by (intro exI [of _ u] conjI) (auto simp: meets_def)
qed

text \<open>
  C7: Every connection of a hardened client is the control endpoint's. Whatever address is dialled,
  the certificate is checked for the endpoint's host name (so a request to another host is answered
  by the endpoint or not at all); with ECH on it was accepted, and with pinning on the chain shows a
  key pinned for that host. One connection makes at most two handshakes.
\<close>

lemma hardened_connections:
  assumes "new_hardened_client parse endpoint h s = (Inr tr, s')" "connect env tr addr st = (r, st')"
  shows "\<exists>u. parse endpoint = Inr u \<and> url_scheme u = ''https'' \<and> \<not> url_user u
    \<and> (\<exists>offers. ds_offered st' = ds_offered st @ offers \<and> length offers \<le> 2)
    \<and> (\<forall>c. r = Inr c \<longrightarrow> tc_server_name (cn_config c) = to_lower (url_hostname u)
        \<and> (h_ech h \<longrightarrow> cn_ech_accepted c)
        \<and> (h_pins h \<and> h_pin_mode h \<noteq> ModeOff \<longrightarrow> (\<exists>chain \<in> set (cn_chains c). \<exists>cert \<in> set chain.
             spki (te_sha256 env) cert \<in> set (store_get (ds_pins st') (to_lower (url_hostname u))))))"
  using assms by (rule client_connects)

text \<open>
  A server that has rotated its ECH configuration: it rejects the published one, offers the
  current one, and accepts the second handshake, whose certificate is recorded on first use.
\<close>

definition toy_transport :: "string list http_transport" where
  "toy_transport = \<lparr>tr_tls = \<lparr>tc_server_name = ''c.example'', tc_pin_mode = ModeTOFU, tc_ech = ''old'', tc_min13 = True,
       tc_require_ech = True, tc_protos = [''h2'', ''http/1.1'']\<rparr>,
     tr_lookup = Some (\<lambda>name s. (Inr [replicate 4 CHR 0x01], s @ [name])), tr_ech_dialer = True\<rparr>"

definition toy_tls_env :: tls_env where
  "toy_tls_env = \<lparr>te_net = (\<lambda>_. Inr ()),
     te_handshake = (\<lambda>_ cfg _. if tc_ech cfg = ''new'' then HsDone True [[''k1'', ''ca'']] else HsRejected ''new''),
     te_sha256 = toy_hash\<rparr>"

definition toy_dial_state :: "pin_state \<Rightarrow> string list dial_state" where
  "toy_dial_state ps = \<lparr>ds_res = [], ds_pins = ps, ds_config = ''old'', ds_offered = []\<rparr>"

lemma toy_new_client:
  "new_hardened_client (\<lambda>s. Inr \<lparr>url_scheme = ''https'', url_user = False, url_host = ''c.example'',
       url_hostname = ''c.example'', url_path = [], url_text = s\<rparr>) ''https://c.example''
     \<lparr>h_lookup = Some (\<lambda>name s. (Inr [replicate 4 CHR 0x01], s @ [name]), \<lambda>_ s. (Inr ''old'', s)),
      h_ech = True, h_pins = True, h_pin_mode = ModeTOFU\<rparr> [] = (Inr toy_transport, [])"
proof -
  have "to_lower ''c.example'' = ''c.example''" by code_simp
  then show ?thesis
    by (simp add: new_hardened_client_def endpoint_host_def wbind_def configure_ech_def base_tls_def use_ech_dialer_def toy_transport_def
        res_simps Let_def)
qed

lemma toy_connect:
  "\<exists>c st'. connect toy_tls_env toy_transport ''access.c.example:443'' (toy_dial_state empty_pins) = (Inr c, st')
     \<and> ds_offered st' = [''old'', ''new'']"
proof -
  have a: "dial_addr toy_transport (te_net toy_tls_env) ''access.c.example:443'' s = (Inr ''1.1.1.1:443'', s @ [''access.c.example''])" for s
  proof -
    have p: "split_host_port ''access.c.example:443'' = Inr (''access.c.example'', ''443'')" "is_ip ''access.c.example'' = False"
      "join_host_port (ip_text (replicate 4 CHR 0x01)) ''443'' = ''1.1.1.1:443''" by code_simp+
    show ?thesis
      unfolding dial_addr_def dial_via_resolver_def toy_transport_def toy_tls_env_def by (simp add: p Let_def)
  qed
  obtain v where v: "verifier toy_hash ModeTOFU ''c.example'' = Some v" by (simp add: verifier_def)
  then obtain ps' where ps: "v [[''k1'', ''ca'']] empty_pins = (Inr (), ps')" using toy_first_use by auto
  show ?thesis
    unfolding connect_def dial_tls_def attempt_def a handshake_def verify_peer_def
    by (simp add: toy_dial_state_def toy_transport_def toy_tls_env_def adopt_def current_def Let_def v ps require_ech_def res_simps)
qed

lemma hardened_connections_witness:
  "\<exists>c st'. connect toy_tls_env toy_transport ''access.c.example:443'' (toy_dial_state empty_pins) = (Inr c, st')
     \<and> tc_server_name (cn_config c) = ''c.example'' \<and> cn_ech_accepted c"
proof -
  obtain c st' where c: "connect toy_tls_env toy_transport ''access.c.example:443'' (toy_dial_state empty_pins) = (Inr c, st')"
    using toy_connect by blast
  have "to_lower ''c.example'' = ''c.example''" by code_simp
  then show ?thesis using hardened_connections [OF toy_new_client c] c by auto
qed

end
