(* ===== verification/Paths.thy ===== *)
theory Paths
  imports GoOS
begin

text \<open>
  \<open>internal/paths/paths.go\<close>: where the client keeps its files. The environment variable, the
  user's configuration directory and the working directory (each may be an error) are
  parameters; whether a file exists is asked of the file system, and a relative name is a file
  of the working directory under that name.
\<close>

section \<open>Operations\<close>

record paths =
  pa_dir :: string
  pa_nodes :: string
  pa_identity :: string
  pa_pins :: string
  pa_state :: string
  pa_assets :: string

record paths_env =
  pe_home :: string
  pe_config_dir :: "string result"
  pe_wd :: "string result"

definition app_dir :: string where "app_dir = ''tunnet-lite''"

datatype place = PNodes | PIdentity | PPins | PState | PAssets

fun legacy :: "place \<Rightarrow> string" where
  "legacy PNodes = ''nodes.json''"
| "legacy PIdentity = ''tunnet-lite-identity.json''"
| "legacy PPins = ''tunnet-lite-pins.json''"
| "legacy PState = ''tunnet-lite-state.json''"
| "legacy PAssets = ''assets''"

text \<open>The name of each place in the directory, and the field that holds it.\<close>

fun place_name :: "place \<Rightarrow> string" where
  "place_name PNodes = ''nodes.json''"
| "place_name PIdentity = ''identity.json''"
| "place_name PPins = ''pins.json''"
| "place_name PState = ''state.json''"
| "place_name PAssets = ''assets''"

fun place_of :: "place \<Rightarrow> paths \<Rightarrow> string" where
  "place_of PNodes p = pa_nodes p"
| "place_of PIdentity p = pa_identity p"
| "place_of PPins p = pa_pins p"
| "place_of PState p = pa_state p"
| "place_of PAssets p = pa_assets p"

definition exists_path :: "fs \<Rightarrow> string \<Rightarrow> bool" where
  "exists_path fs p \<longleftrightarrow> is_ok (stat p fs)"

definition adopt_legacy :: "fs \<Rightarrow> bool \<Rightarrow> string \<Rightarrow> place \<Rightarrow> string" where
  "adopt_legacy fs force cur k =
     (let old = legacy k
      in if force then old
         else if exists_path fs old \<and> \<not> exists_path fs cur then old else cur)"

definition with_legacy :: "fs \<Rightarrow> paths \<Rightarrow> bool \<Rightarrow> paths" where
  "with_legacy fs p force = p\<lparr>
     pa_nodes := adopt_legacy fs force (pa_nodes p) PNodes,
     pa_identity := adopt_legacy fs force (pa_identity p) PIdentity,
     pa_pins := adopt_legacy fs force (pa_pins p) PPins,
     pa_state := adopt_legacy fs force (pa_state p) PState,
     pa_assets := (if force then legacy PAssets
       else if exists_path fs (legacy PAssets) \<and> \<not> exists_path fs (pa_assets p) then legacy PAssets else pa_assets p)\<rparr>"

definition paths_in :: "string \<Rightarrow> paths" where
  "paths_in d = \<lparr>pa_dir = d, pa_nodes = join_path [d, ''nodes.json''], pa_identity = join_path [d, ''identity.json''],
     pa_pins = join_path [d, ''pins.json''], pa_state = join_path [d, ''state.json''], pa_assets = join_path [d, ''assets'']\<rparr>"

definition resolve_paths :: "paths_env \<Rightarrow> fs \<Rightarrow> string \<Rightarrow> paths result" where
  "resolve_paths env fs dir =
     (let explicit = (dir \<noteq> []);
          explicit = (if dir = [] then pe_home env \<noteq> [] else explicit);
          dir = (if dir = [] then pe_home env else dir);
          located = (\<lambda>dir. rbind (abs_path (pe_wd env) dir) (\<lambda>d.
            Inr (if explicit then paths_in d else with_legacy fs (paths_in d) False)))
      in if dir = [] then
           (case pe_config_dir env of
              Inl _ \<Rightarrow> Inr (with_legacy fs
                \<lparr>pa_dir = ''.'', pa_nodes = [], pa_identity = [], pa_pins = [], pa_state = [], pa_assets = []\<rparr> True)
            | Inr base \<Rightarrow> located (join_path [base, app_dir]))
         else located dir)"

definition ensure_dir :: "paths \<Rightarrow> fs \<Rightarrow> unit result \<times> fs" where
  "ensure_dir p fs = (if pa_dir p = [] \<or> pa_dir p = ''.'' then (Inr (), fs) else mkdir_all (pa_dir p) fs)"

definition using_legacy :: "paths \<Rightarrow> bool" where
  "using_legacy p \<longleftrightarrow> list_ex (\<lambda>path. \<not> is_abs path) [pa_nodes p, pa_identity p, pa_pins p, pa_state p]"

section \<open>Properties\<close>

lemma place_of_paths_in: "place_of k (paths_in d) = join_path [d, place_name k]"
  by (cases k) (simp_all add: paths_in_def)

lemma place_of_with_legacy:
  "place_of k (with_legacy fs p force) = adopt_legacy fs force (place_of k p) k"
  by (cases k) (simp_all add: with_legacy_def adopt_legacy_def Let_def)

lemma legacy_relative: "\<not> is_abs (legacy k)"
  by (cases k) (simp_all add: is_abs_def slash_def)

lemma using_legacy_iff: "using_legacy p \<longleftrightarrow> (\<exists>k. k \<noteq> PAssets \<and> \<not> is_abs (place_of k p))"
proof
  show "using_legacy p \<Longrightarrow> \<exists>k. k \<noteq> PAssets \<and> \<not> is_abs (place_of k p)"
    by (auto simp: using_legacy_def intro: exI [of _ PNodes] exI [of _ PIdentity] exI [of _ PPins] exI [of _ PState])
  show "\<exists>k. k \<noteq> PAssets \<and> \<not> is_abs (place_of k p) \<Longrightarrow> using_legacy p"
  proof (elim exE conjE)
    fix k show "k \<noteq> PAssets \<Longrightarrow> \<not> is_abs (place_of k p) \<Longrightarrow> using_legacy p"
      by (cases k) (simp_all add: using_legacy_def)
  qed
qed


text \<open>An identity of an earlier version in the working directory.\<close>

definition legacy_env :: paths_env where
  "legacy_env = \<lparr>pe_home = [], pe_config_dir = Inr ''/c'', pe_wd = Inr ''/w''\<rparr>"


end
