(* ===== verification/Rules.thy ===== *)
theory Rules
  imports GoOS
begin

text \<open>
  \<open>internal/rules/fetch.go\<close>: downloading the rule sets. HTTP and SHA-256 are parameters; a body is
  the bytes that arrive and the error that ends them, if one does. The state is the file system,
  the URLs requested so far and the log. Contexts are not modelled: a cancelled one shows as the
  errors it makes of HTTP.
\<close>

section \<open>Data\<close>

record web_reply =
  wr_code :: int
  wr_status :: string
  wr_data :: string
  wr_error :: "gerr option"

record rules_env =
  re_request :: "string \<Rightarrow> unit result"
  re_http :: "string list \<Rightarrow> string \<Rightarrow> web_reply result"
  re_sha256 :: "string \<Rightarrow> string"

record rules_world =
  rw_fs :: fs
  rw_sent :: "string list"
  rw_log :: "(string \<times> garg list) list"

record fetcher =
  ft_base :: string
  ft_attempts :: int

definition default_base_url :: string where
  "default_base_url = ''https://github.com/Loyalsoldier/v2ray-rules-dat/releases/latest/download''"

definition rule_files :: "string list" where
  "rule_files = [''geoip.dat'', ''geosite.dat'']"

definition new_fetcher :: fetcher where
  "new_fetcher = \<lparr>ft_base = default_base_url, ft_attempts = 3\<rparr>"

definition rules_log :: "string \<Rightarrow> garg list \<Rightarrow> rules_world \<Rightarrow> rules_world" where
  "rules_log fmt args w = w\<lparr>rw_log := rw_log w @ [(fmt, args)]\<rparr>"

definition on_fs :: "(fs \<Rightarrow> 'a result \<times> fs) \<Rightarrow> rules_world \<Rightarrow> 'a result \<times> rules_world" where
  "on_fs f w = (let (r, fs') = f (rw_fs w) in (r, w\<lparr>rw_fs := fs'\<rparr>))"

section \<open>Operations\<close>

definition rules_url :: "fetcher \<Rightarrow> string \<Rightarrow> string" where
  "rules_url f name = trim_suffix (ft_base f) ''/'' @ ''/'' @ name"

text \<open>The body of a reply of status 200.\<close>

definition rules_get :: "rules_env \<Rightarrow> fetcher \<Rightarrow> string \<Rightarrow> rules_world
    \<Rightarrow> (string \<times> gerr option) result \<times> rules_world" where
  "rules_get env f name w =
     (let url = rules_url f name
      in case re_request env url of
           Inl e \<Rightarrow> (Inl e, w)
         | Inr _ \<Rightarrow>
             (rbind (re_http env (rw_sent w) url) (\<lambda>resp.
              rbind (rcheck (wr_code resp = 200)
                (Errorf ''%s returned %s'' [AStr url, AStr (wr_status resp)])) (\<lambda>_.
              Inr (wr_data resp, wr_error resp))),
              w\<lparr>rw_sent := rw_sent w @ [url]\<rparr>))"

text \<open>\<open>strings.Fields\<close>, as far as it is used: the first field, empty when there is none.\<close>

fun up_to_space :: "string \<Rightarrow> string" where
  "up_to_space [] = []"
| "up_to_space (c # s) = (if trim_left (c # s) = c # s then c # up_to_space s else [])"

definition first_field :: "string \<Rightarrow> string" where
  "first_field s = up_to_space (trim_left s)"

text \<open>\<open>io.ReadAll\<close> of a limited body: the error is not seen once the limit is reached.\<close>

definition read_limited :: "nat \<Rightarrow> string \<times> gerr option \<Rightarrow> string result" where
  "read_limited n body =
     (case body of (bytes, err) \<Rightarrow>
        if n \<le> length bytes then Inr (take n bytes)
        else case err of Some e \<Rightarrow> Inl e | None \<Rightarrow> Inr bytes)"

definition checksum_of :: "string \<times> gerr option \<Rightarrow> string result" where
  "checksum_of body =
     rbind (read_limited 4096 body) (\<lambda>data.
     rbind (rcheck (length (first_field data) = 64)
       (Errorf ''unusable checksum file: %q'' [AStr (trim_space data)])) (\<lambda>_.
     Inr (to_lower (first_field data))))"

definition rules_digest :: "rules_env \<Rightarrow> fetcher \<Rightarrow> string \<Rightarrow> rules_world \<Rightarrow> string result \<times> rules_world" where
  "rules_digest env f name w =
     (case rules_get env f (name @ ''.sha256sum'') w of
        (Inl e, w) \<Rightarrow> (Inl e, w)
      | (Inr body, w) \<Rightarrow> (checksum_of body, w))"

definition hex_digest :: "rules_env \<Rightarrow> string \<Rightarrow> string" where
  "hex_digest env d = hex_encode (re_sha256 env d)"

definition file_digest :: "rules_env \<Rightarrow> string \<Rightarrow> fs \<Rightarrow> string result" where
  "file_digest env path fs = rbind (read_file path fs) (\<lambda>d. Inr (hex_digest env d))"

text \<open>\<open>os.Create\<close> empties the file; \<open>io.Copy\<close> writes what arrives, before it sees the body's error.\<close>

definition copy_body :: "string \<Rightarrow> string \<times> gerr option \<Rightarrow> fs \<Rightarrow> unit result \<times> fs" where
  "copy_body dest body fs =
     (case write_file dest [] fs of
        (Inl e, fs) \<Rightarrow> (Inl e, fs)
      | (Inr _, fs) \<Rightarrow>
          (case write_file dest (fst body) fs of
             (Inl e, fs) \<Rightarrow> (Inl e, fs)
           | (Inr _, fs) \<Rightarrow> (case snd body of Some e \<Rightarrow> (Inl e, fs) | None \<Rightarrow> (Inr (), fs))))"

definition download :: "rules_env \<Rightarrow> fetcher \<Rightarrow> string \<Rightarrow> string \<Rightarrow> rules_world
    \<Rightarrow> (nat \<times> string) result \<times> rules_world" where
  "download env f name dest w =
     (case rules_get env f name w of
        (Inl e, w) \<Rightarrow> (Inl e, w)
      | (Inr body, w) \<Rightarrow>
          (case on_fs (copy_body dest body) w of
             (Inl e, w) \<Rightarrow> (Inl e, w)
           | (Inr _, w) \<Rightarrow> (Inr (length (fst body), hex_digest env (fst body)), w)))"

text \<open>
  The retry loop over the attempts that are left; with none left it returns the last error, which
  would be nil had there been no attempt.
\<close>

fun fetch_attempts :: "rules_env \<Rightarrow> fetcher \<Rightarrow> string \<Rightarrow> string \<Rightarrow> string \<Rightarrow> int \<Rightarrow> nat \<Rightarrow> gerr option
    \<Rightarrow> rules_world \<Rightarrow> unit result \<times> rules_world" where
  "fetch_attempts env f name target want attempts 0 last_err w =
     ((case last_err of None \<Rightarrow> Inr () | Some e \<Rightarrow> Inl e), w)"
| "fetch_attempts env f name target want attempts (Suc n) last_err w =
     (case download env f name (target @ ''.part'') w of
        (Inl e, w) \<Rightarrow> fetch_attempts env f name target want attempts n (Some e) w
      | (Inr (n_bytes, got), w) \<Rightarrow>
          if got \<noteq> want then
            fetch_attempts env f name target want attempts n
              (Some (Errorf ''digest mismatch (attempt %d of %d); the download was probably truncated''
                 [AInt (attempts - int n), AInt attempts]))
              (snd (on_fs (remove (target @ ''.part'')) w))
          else (case on_fs (rename (target @ ''.part'') target) w of
                  (Inl e, w) \<Rightarrow> (Inl e, w)
                | (Inr _, w) \<Rightarrow> (Inr (), rules_log ''%s ok (%.1f MB)'' [AStr name, AInt (int n_bytes)] w)))"

definition rules_target :: "string \<Rightarrow> string \<Rightarrow> string" where
  "rules_target dir name = join_path [dir, name]"

definition fetch_one :: "rules_env \<Rightarrow> fetcher \<Rightarrow> string \<Rightarrow> string \<Rightarrow> rules_world \<Rightarrow> unit result \<times> rules_world" where
  "fetch_one env f dir name w =
     (case rules_digest env f name w of
        (Inl e, w) \<Rightarrow> (Inl e, w)
      | (Inr want, w) \<Rightarrow>
          (let target = rules_target dir name
           in if file_digest env target (rw_fs w) = Inr want then
                (Inr (), rules_log ''%s is already current'' [AStr name] w)
              else let attempts = max (ft_attempts f) 1
                in fetch_attempts env f name target want attempts (nat attempts) None w))"

fun fetch_each :: "rules_env \<Rightarrow> fetcher \<Rightarrow> string \<Rightarrow> string list \<Rightarrow> rules_world \<Rightarrow> unit result \<times> rules_world" where
  "fetch_each env f dir [] w = (Inr (), w)"
| "fetch_each env f dir (name # names) w =
     (case fetch_one env f dir name w of
        (Inl e, w) \<Rightarrow> (Inl (Errorf ''%s: %w'' [AStr name, AErr e]), w)
      | (Inr _, w) \<Rightarrow> fetch_each env f dir names w)"

definition fetch :: "rules_env \<Rightarrow> fetcher \<Rightarrow> string \<Rightarrow> rules_world \<Rightarrow> unit result \<times> rules_world" where
  "fetch env f dir w =
     (case on_fs (mkdir_all dir) w of
        (Inl e, w) \<Rightarrow> (Inl e, w)
      | (Inr _, w) \<Rightarrow> fetch_each env f dir rule_files w)"


section \<open>Where the files go\<close>

definition base_name :: "string \<Rightarrow> string" where
  "base_name p = rev (takeWhile (\<lambda>c. c \<noteq> slash) (rev p))"

definition plain_name :: "string \<Rightarrow> bool" where
  "plain_name n \<longleftrightarrow> slash \<notin> set n \<and> n \<notin> {[], ''.'', ''..''}"

lemma no_slash_rev: "slash \<notin> set n \<Longrightarrow> takeWhile (\<lambda>c. c \<noteq> slash) (rev n @ q) = rev n @ takeWhile (\<lambda>c. c \<noteq> slash) q"
  by (rule takeWhile_append2) auto

lemma base_name_tail: "slash \<notin> set n \<Longrightarrow> p = [] \<or> last p = slash \<Longrightarrow> base_name (p @ n) = n"
  unfolding base_name_def rev_append by (subst no_slash_rev) (auto simp: hd_rev takeWhile_eq_Nil_iff)

lemma split_on_slash: "split_on d (s @ d # t) = split_on d s @ split_on d t"
  by (induction s) (auto split: list.splits)

lemma join_tail: "\<exists>p. join [slash] (ws @ [n]) = p @ n \<and> (p = [] \<or> last p = slash)"
proof (induction ws)
  case (Cons w ws)
  then obtain p where p: "join [slash] (ws @ [n]) = p @ n" "p = [] \<or> last p = slash" by blast
  then have "join [slash] ((w # ws) @ [n]) = (w @ slash # p) @ n" by (simp add: join_Cons)
  then show ?case using p(2) by (intro exI [of _ "w @ slash # p"]) auto
qed simp

lemma base_rules_target:
  assumes "plain_name n"
  shows "base_name (rules_target dir n) = n"
proof -
  have n: "slash \<notin> set n" "n \<noteq> []" "n \<noteq> ''.''" "n \<noteq> ''..''" using assms by (auto simp: plain_name_def)
  define q where "q = (if dir = [] then n else dir @ slash # n)"
  have t: "rules_target dir n = clean_path q" using n by (simp add: rules_target_def join_path_def q_def)
  have "split_on slash q = (if dir = [] then [] else split_on slash dir) @ [n]"
    using n(1) by (simp add: q_def split_on_slash split_on_absent)
  then obtain ws where ws: "split_on slash q = ws @ [n]" by blast
  obtain p where p: "join [slash] (foldl (clean_step (is_abs q)) [] ws @ [n]) = p @ n" "p = [] \<or> last p = slash"
    using join_tail by blast
  have out: "foldl (clean_step (is_abs q)) [] (split_on slash q) = foldl (clean_step (is_abs q)) [] ws @ [n]"
    using n by (simp add: ws clean_step_def)
  have "clean_path q = (if is_abs q then slash # p else p) @ n"
    using n(2) unfolding clean_path_def Let_def out p(1) by simp
  moreover have "(if is_abs q then slash # p else p) = [] \<or> last (if is_abs q then slash # p else p) = slash"
    using p(2) by auto
  ultimately show ?thesis unfolding t using base_name_tail [OF n(1)] by presburger
qed

lemma base_part: "slash \<notin> set x \<Longrightarrow> base_name (t @ x) = base_name t @ x"
  by (simp add: base_name_def no_slash_rev)

lemma rule_files_plain: "n \<in> set rule_files \<Longrightarrow> plain_name n"
  by (auto simp: rule_files_def plain_name_def slash_def)


section \<open>What a fetch leaves behind\<close>

definition file_at :: "string \<Rightarrow> fs \<Rightarrow> string option" where
  "file_at p fs = (case fs_nodes fs p of Some (File d) \<Rightarrow> Some d | _ \<Rightarrow> None)"

text \<open>A digest the server published for a name, and a content with that digest.\<close>

definition published :: "rules_env \<Rightarrow> fetcher \<Rightarrow> string \<Rightarrow> string \<Rightarrow> bool" where
  "published env f name want \<longleftrightarrow>
     (\<exists>sent r. re_http env sent (rules_url f (name @ ''.sha256sum'')) = Inr r \<and> wr_code r = 200
        \<and> checksum_of (wr_data r, wr_error r) = Inr want)"

definition verified :: "rules_env \<Rightarrow> fetcher \<Rightarrow> string \<Rightarrow> string \<Rightarrow> bool" where
  "verified env f name d \<longleftrightarrow> published env f name (hex_digest env d)"

lemma rules_get_sent: "rules_get env f name w = (r, w') \<Longrightarrow>
    rw_fs w' = rw_fs w \<and> (\<exists>k \<le> 1. rw_sent w' = rw_sent w @ replicate k (rules_url f name))"
  by (auto simp: rules_get_def Let_def split: sum.splits intro: exI [of _ "0"] exI [of _ "Suc 0"])

lemma copy_body_file:
  assumes "copy_body dest body fs = (r, fs')"
  shows "p \<noteq> dest \<Longrightarrow> fs_nodes fs' p = fs_nodes fs p"
    and "r = Inr () \<Longrightarrow> file_at dest fs' = Some (fst body)"
proof -
  show "p \<noteq> dest \<Longrightarrow> fs_nodes fs' p = fs_nodes fs p"
    using assms write_file_nodes [of p dest "[]" fs] write_file_nodes [of p dest "fst body" "snd (write_file dest [] fs)"]
    by (auto simp: copy_body_def split: prod.splits sum.splits option.splits)
  show "r = Inr () \<Longrightarrow> file_at dest fs' = Some (fst body)"
    using assms by (auto simp: copy_body_def file_at_def dest!: write_file_ok split: prod.splits sum.splits option.splits)
qed

lemma download_file:
  assumes "download env f name dest w = (r, w')"
  shows "p \<noteq> dest \<Longrightarrow> fs_nodes (rw_fs w') p = fs_nodes (rw_fs w) p"
    and "r = Inr (k, got) \<Longrightarrow> \<exists>d. file_at dest (rw_fs w') = Some d \<and> got = hex_digest env d"
    and "\<exists>k \<le> 1. rw_sent w' = rw_sent w @ replicate k (rules_url f name)"
proof -
  obtain b w1 where g: "rules_get env f name w = (b, w1)" by fastforce
  note g1 = rules_get_sent [OF g]
  have "p \<noteq> dest \<longrightarrow> fs_nodes (rw_fs w') p = fs_nodes (rw_fs w) p"
    and "r = Inr (k, got) \<longrightarrow> (\<exists>d. file_at dest (rw_fs w') = Some d \<and> got = hex_digest env d)"
    and "rw_sent w' = rw_sent w1"
    using assms g g1 by (auto simp: download_def on_fs_def Let_def copy_body_file split: sum.splits prod.splits)
  with g1 show "p \<noteq> dest \<Longrightarrow> fs_nodes (rw_fs w') p = fs_nodes (rw_fs w) p"
    "r = Inr (k, got) \<Longrightarrow> \<exists>d. file_at dest (rw_fs w') = Some d \<and> got = hex_digest env d"
    "\<exists>k \<le> 1. rw_sent w' = rw_sent w @ replicate k (rules_url f name)" by simp_all
qed


text \<open>
  What one file's download leaves: the file at its target is the old one or has the wanted digest;
  nothing but the target and its part file changes; there are at most \<open>n\<close> requests.
\<close>

definition attempted :: "rules_env \<Rightarrow> fetcher \<Rightarrow> string \<Rightarrow> string \<Rightarrow> string \<Rightarrow> nat \<Rightarrow> rules_world \<Rightarrow> rules_world \<Rightarrow> bool" where
  "attempted env f name target want n w w' \<longleftrightarrow>
     (\<forall>p. p \<noteq> target \<and> p \<noteq> target @ ''.part'' \<longrightarrow> fs_nodes (rw_fs w') p = fs_nodes (rw_fs w) p)
     \<and> (file_at target (rw_fs w') = file_at target (rw_fs w)
        \<or> (\<exists>d. file_at target (rw_fs w') = Some d \<and> hex_digest env d = want))
     \<and> (\<exists>k \<le> n. rw_sent w' = rw_sent w @ replicate k (rules_url f name))"

lemma attempted_trans:
  "attempted env f name target want m w w1 \<Longrightarrow> attempted env f name target want n w1 w2
     \<Longrightarrow> attempted env f name target want (m + n) w w2"
  unfolding attempted_def by (elim conjE exE) (fastforce simp: replicate_add [symmetric] intro: add_mono)

lemma attempted_mono: "attempted env f name target want m w w' \<Longrightarrow> m \<le> n \<Longrightarrow> attempted env f name target want n w w'"
  by (auto simp: attempted_def intro: le_trans)

lemma attempted_refl: "attempted env f name target want n w w"
  by (auto simp: attempted_def)

lemma download_attempted:
  "download env f name (target @ ''.part'') w = (r, w') \<Longrightarrow> attempted env f name target want 1 w w'"
  using download_file [of env f name "target @ ''.part''" w r w']
  by (auto simp: attempted_def file_at_def)

lemma remove_attempted: "attempted env f name target want 0 w (snd (on_fs (remove (target @ ''.part'')) w))"
  by (auto simp: attempted_def on_fs_def remove_def file_at_def split: option.splits)

lemma rename_attempted:
  assumes "on_fs (rename (target @ ''.part'') target) w = (r, w')"
    and "file_at (target @ ''.part'') (rw_fs w) = Some d" "hex_digest env d = want"
  shows "attempted env f name target want 0 w w' \<and> (r = Inr () \<longrightarrow> file_at target (rw_fs w') = Some d)"
  using assms by (auto simp: attempted_def on_fs_def rename_def file_at_def split: option.splits node.splits if_splits)

lemma fetch_attempts_spec:
  assumes "fetch_attempts env f name target want attempts n last_err w = (r, w')"
  shows "attempted env f name target want n w w'
    \<and> (r = Inr () \<and> (n > 0 \<or> last_err \<noteq> None) \<longrightarrow>
        (\<exists>d. file_at target (rw_fs w') = Some d \<and> hex_digest env d = want))"
  using assms
proof (induction n arbitrary: last_err w)
  case 0
  then show ?case by (auto simp: attempted_refl split: option.splits)
next
  case (Suc n)
  obtain x w1 where x: "download env f name (target @ ''.part'') w = (x, w1)" by fastforce
  note a1 = download_attempted [OF x, of want]
  show ?case
  proof (cases x)
    case (Inl e)
    then have "fetch_attempts env f name target want attempts n (Some e) w1 = (r, w')" using Suc.prems x by simp
    from Suc.IH [OF this] show ?thesis using attempted_trans [OF a1] by simp
  next
    case (Inr kg)
    obtain k got where kg: "kg = (k, got)" by fastforce
    obtain d where d: "file_at (target @ ''.part'') (rw_fs w1) = Some d" "got = hex_digest env d"
      using download_file(2) [OF x, of k got] Inr kg by auto
    show ?thesis
    proof (cases "got = want")
      case False
      let ?w2 = "snd (on_fs (remove (target @ ''.part'')) w1)"
      obtain e where "fetch_attempts env f name target want attempts n (Some e) ?w2 = (r, w')"
        using Suc.prems x Inr kg False by auto
      from Suc.IH [OF this] show ?thesis
        using attempted_trans [OF attempted_trans [OF a1 remove_attempted]] by fastforce
    next
      case True
      obtain y w2 where y: "on_fs (rename (target @ ''.part'') target) w1 = (y, w2)" by fastforce
      have w': "rw_fs w' = rw_fs w2 \<and> rw_sent w' = rw_sent w2 \<and> is_ok r = is_ok y"
        using Suc.prems x Inr kg True y by (cases y) (auto simp: rules_log_def)
      have "attempted env f name target want 1 w w2"
        using attempted_trans [OF a1 conjunct1 [OF rename_attempted [OF y d(1)]]] d(2) True by simp
      then have "attempted env f name target want 1 w w'" using w' by (simp add: attempted_def)
      moreover have "r = Inr () \<longrightarrow> file_at target (rw_fs w') = Some d"
        using rename_attempted [OF y d(1)] d(2) True w' by (cases y) (auto simp: res_simps)
      ultimately show ?thesis using attempted_mono d(2) True by fastforce
    qed
  qed
qed


text \<open>The same for a whole file: its checksum is asked for first.\<close>

definition fetched :: "rules_env \<Rightarrow> fetcher \<Rightarrow> string \<Rightarrow> string \<Rightarrow> rules_world \<Rightarrow> rules_world \<Rightarrow> bool" where
  "fetched env f target name w w' \<longleftrightarrow>
     (\<forall>p. p \<noteq> target \<and> p \<noteq> target @ ''.part'' \<longrightarrow> fs_nodes (rw_fs w') p = fs_nodes (rw_fs w) p)
     \<and> (file_at target (rw_fs w') = file_at target (rw_fs w)
        \<or> (\<exists>d. file_at target (rw_fs w') = Some d \<and> verified env f name d))
     \<and> (\<exists>reqs. rw_sent w' = rw_sent w @ reqs \<and> length reqs \<le> 1 + nat (max (ft_attempts f) 1))"

lemma rules_digest_published:
  "rules_digest env f name w = (r, w') \<Longrightarrow> rw_fs w' = rw_fs w
     \<and> (\<exists>k \<le> 1. rw_sent w' = rw_sent w @ replicate k (rules_url f (name @ ''.sha256sum'')))
     \<and> (r = Inr want \<longrightarrow> published env f name want)"
  by (auto simp: rules_digest_def rules_get_def Let_def published_def res_simps split: sum.splits prod.splits
      intro: exI [of _ "0"] exI [of _ "Suc 0"])

lemma fetch_one_spec:
  assumes "fetch_one env f dir name w = (r, w')"
  shows "fetched env f (rules_target dir name) name w w'
    \<and> (r = Inr () \<longrightarrow> (\<exists>d. file_at (rules_target dir name) (rw_fs w') = Some d \<and> verified env f name d))"
proof -
  let ?t = "rules_target dir name" and ?n = "nat (max (ft_attempts f) 1)"
  obtain x w1 where x: "rules_digest env f name w = (x, w1)" by fastforce
  note dg = rules_digest_published [OF x]
  consider (err) e where "x = Inl e" "r = Inl e" "w' = w1"
    | (current) want where "x = Inr want" "r = Inr ()" "w' = rules_log ''%s is already current'' [AStr name] w1"
        "file_digest env ?t (rw_fs w1) = Inr want"
    | (load) want where "x = Inr want"
        "fetch_attempts env f name ?t want (max (ft_attempts f) 1) ?n None w1 = (r, w')"
  proof (cases x)
    case (Inl e)
    with assms x have "r = Inl e" "w' = w1" by (simp_all add: fetch_one_def)
    with Inl show ?thesis by (rule err)
  next
    case (Inr want)
    have r: "(r, w') = (if file_digest env ?t (rw_fs w1) = Inr want
        then (Inr (), rules_log ''%s is already current'' [AStr name] w1)
        else fetch_attempts env f name ?t want (max (ft_attempts f) 1) ?n None w1)"
      using assms unfolding fetch_one_def x Inr prod.case sum.case Let_def by (rule sym)
    show ?thesis
    proof (cases "file_digest env ?t (rw_fs w1) = Inr want")
      case True
      with r have "r = Inr ()" "w' = rules_log ''%s is already current'' [AStr name] w1" by simp_all
      from current [OF Inr this True] show ?thesis .
    next
      case False
      with r have "fetch_attempts env f name ?t want (max (ft_attempts f) 1) ?n None w1 = (r, w')" by simp
      from load [OF Inr this] show ?thesis .
    qed
  qed
  then show ?thesis
  proof cases
    case err
    moreover obtain k where "k \<le> 1" "rw_sent w1 = rw_sent w @ replicate k (rules_url f (name @ ''.sha256sum''))"
      using dg by blast
    ultimately show ?thesis
      using dg by (auto simp: fetched_def intro: exI [of _ "replicate k (rules_url f (name @ ''.sha256sum''))"])
  next
    case current
    then obtain d where "read_file ?t (rw_fs w1) = Inr d" "want = hex_digest env d" by (auto simp: file_digest_def res_simps)
    then have "file_at ?t (rw_fs w1) = Some d \<and> verified env f name d"
      using dg current(1) by (auto simp: read_file_def file_at_def verified_def split: if_splits option.splits node.splits)
    then have "file_at ?t (rw_fs w') = Some d" "verified env f name d" "rw_fs w' = rw_fs w" "rw_sent w' = rw_sent w1"
      using dg current(3) by (simp_all add: rules_log_def)
    moreover obtain k where "k \<le> 1" "rw_sent w1 = rw_sent w @ replicate k (rules_url f (name @ ''.sha256sum''))"
      using dg by blast
    ultimately show ?thesis by (auto simp: fetched_def intro: exI [of _ "replicate k (rules_url f (name @ ''.sha256sum''))"])
  next
    case load
    have sp: "attempted env f name ?t want ?n w1 w'"
      and ok: "r = Inr () \<Longrightarrow> \<exists>d. file_at ?t (rw_fs w') = Some d \<and> hex_digest env d = want"
      using fetch_attempts_spec [OF load(2)] by auto
    have pub: "published env f name want" "rw_fs w1 = rw_fs w" using dg load(1) by auto
    obtain k l where k: "k \<le> 1" "l \<le> ?n" "rw_sent w' = rw_sent w
        @ (replicate k (rules_url f (name @ ''.sha256sum'')) @ replicate l (rules_url f name))"
      using sp dg unfolding attempted_def by (metis append.assoc)
    have "fetched env f ?t name w w'"
      unfolding fetched_def
    proof (intro conjI exI)
      show "\<forall>p. p \<noteq> ?t \<and> p \<noteq> ?t @ ''.part'' \<longrightarrow> fs_nodes (rw_fs w') p = fs_nodes (rw_fs w) p"
        using sp pub(2) by (simp add: attempted_def)
      show "file_at ?t (rw_fs w') = file_at ?t (rw_fs w) \<or> (\<exists>d. file_at ?t (rw_fs w') = Some d \<and> verified env f name d)"
        using sp pub by (auto simp: attempted_def verified_def)
      show "rw_sent w' = rw_sent w @ (replicate k (rules_url f (name @ ''.sha256sum'')) @ replicate l (rules_url f name))"
        by (rule k(3))
      show "length (replicate k (rules_url f (name @ ''.sha256sum'')) @ replicate l (rules_url f name)) \<le> 1 + ?n"
        using k(1,2) by simp
    qed
    moreover have "r = Inr () \<longrightarrow> (\<exists>d. file_at ?t (rw_fs w') = Some d \<and> verified env f name d)"
      using ok pub(1) by (auto simp: verified_def)
    ultimately show ?thesis by simp
  qed
qed


lemma rules_targets_apart:
  assumes "plain_name m" "plain_name n" "m \<noteq> n" "m \<noteq> n @ ''.part''"
  shows "rules_target dir m \<noteq> rules_target dir n" "rules_target dir m \<noteq> rules_target dir n @ ''.part''"
  using assms base_rules_target [of m dir] base_rules_target [of n dir] base_part [of "''.part''" "rules_target dir n"]
  by (auto simp: slash_def)

definition names_ok :: "string list \<Rightarrow> bool" where
  "names_ok names \<longleftrightarrow> distinct names \<and> (\<forall>m \<in> set names. plain_name m \<and> (\<forall>n \<in> set names. m \<noteq> n @ ''.part''))"

lemma fetched_other: "fetched env f t name w w' \<Longrightarrow> p \<noteq> t \<Longrightarrow> p \<noteq> t @ ''.part'' \<Longrightarrow> file_at p (rw_fs w') = file_at p (rw_fs w)"
  by (simp add: fetched_def file_at_def)

lemma fetch_each_spec:
  assumes "fetch_each env f dir names w = (r, w')" "names_ok names"
  shows "(\<forall>p. (\<forall>n \<in> set names. p \<noteq> rules_target dir n \<and> p \<noteq> rules_target dir n @ ''.part'')
        \<longrightarrow> file_at p (rw_fs w') = file_at p (rw_fs w))
    \<and> (\<forall>n \<in> set names. let t = rules_target dir n in
         file_at t (rw_fs w') = file_at t (rw_fs w) \<or> (\<exists>d. file_at t (rw_fs w') = Some d \<and> verified env f n d))
    \<and> (r = Inr () \<longrightarrow> (\<forall>n \<in> set names. \<exists>d. file_at (rules_target dir n) (rw_fs w') = Some d \<and> verified env f n d))
    \<and> (\<exists>reqs. rw_sent w' = rw_sent w @ reqs \<and> length reqs \<le> length names * (1 + nat (max (ft_attempts f) 1)))"
  using assms
proof (induction names arbitrary: w)
  case (Cons name names)
  obtain x w1 where x: "fetch_one env f dir name w = (x, w1)" by fastforce
  have one: "fetched env f (rules_target dir name) name w w1"
    and ok: "x = Inr () \<Longrightarrow> \<exists>d. file_at (rules_target dir name) (rw_fs w1) = Some d \<and> verified env f name d"
    using fetch_one_spec [OF x] by auto
  have names: "names_ok names" using Cons.prems(2) by (simp add: names_ok_def)
  have apart: "rules_target dir m \<noteq> rules_target dir name \<and> rules_target dir m \<noteq> rules_target dir name @ ''.part''
      \<and> rules_target dir name \<noteq> rules_target dir m \<and> rules_target dir name \<noteq> rules_target dir m @ ''.part''"
    if "m \<in> set names" for m
  proof -
    have "m \<noteq> name" "plain_name m" "plain_name name" "m \<noteq> name @ ''.part''" "name \<noteq> m @ ''.part''"
      using Cons.prems(2) that by (auto simp: names_ok_def)
    then show ?thesis using rules_targets_apart [of m name] rules_targets_apart [of name m] by auto
  qed
  note oth = fetched_other [OF one]
  obtain reqs where reqs: "rw_sent w1 = rw_sent w @ reqs" "length reqs \<le> 1 + nat (max (ft_attempts f) 1)"
    using one by (auto simp: fetched_def)
  have here: "file_at (rules_target dir name) (rw_fs w1) = file_at (rules_target dir name) (rw_fs w)
      \<or> (\<exists>d. file_at (rules_target dir name) (rw_fs w1) = Some d \<and> verified env f name d)"
    using one by (simp add: fetched_def)
  show ?case
  proof (cases x)
    case (Inl e)
    then have r: "r \<noteq> Inr ()" "w' = w1" using Cons.prems(1) x by auto
    show ?thesis
      unfolding r(2) using oth apart here r(1) reqs by (auto simp: Let_def intro!: exI [of _ reqs])
  next
    case (Inr u)
    then have f: "fetch_each env f dir names w1 = (r, w')" using Cons.prems(1) x by simp
    note ih = Cons.IH [OF f names]
    have keep: "file_at (rules_target dir name) (rw_fs w') = file_at (rules_target dir name) (rw_fs w1)"
      using ih apart by blast
    obtain reqs' where reqs': "rw_sent w' = rw_sent w1 @ reqs'" "length reqs' \<le> length names * (1 + nat (max (ft_attempts f) 1))"
      using ih by blast
    have ms: "file_at (rules_target dir m) (rw_fs w') = file_at (rules_target dir m) (rw_fs w)
        \<or> (\<exists>d. file_at (rules_target dir m) (rw_fs w') = Some d \<and> verified env f m d)" if "m \<in> set names" for m
      using ih oth [of "rules_target dir m"] apart [OF that] that by (auto simp: Let_def)
    have "\<exists>reqs. rw_sent w' = rw_sent w @ reqs \<and> length reqs \<le> length (name # names) * (1 + nat (max (ft_attempts f) 1))"
      using reqs reqs' by (intro exI [of _ "reqs @ reqs'"]) simp
    moreover have "\<forall>p. (\<forall>n \<in> set (name # names). p \<noteq> rules_target dir n \<and> p \<noteq> rules_target dir n @ ''.part'')
        \<longrightarrow> file_at p (rw_fs w') = file_at p (rw_fs w)"
      using ih oth by simp
    moreover have "r = Inr () \<longrightarrow> (\<forall>n \<in> set (name # names). \<exists>d. file_at (rules_target dir n) (rw_fs w') = Some d \<and> verified env f n d)"
      using ih ok Inr keep by simp
    ultimately show ?thesis using ms here keep by (simp add: Let_def)
  qed
qed simp


section \<open>Properties\<close>

text \<open>
  C8: However downloads fail, are cut short or are retried, a rule set that is in place after a
  fetch is the one that was there before, byte for byte, or one whose digest is the published
  one; after a successful fetch every rule set is of the second kind. No other file changes but
  the two part files, and there are at most \<open>Attempts\<close> downloads (at least one allowed) and one
  checksum request for each file.
\<close>

lemma fetch_installs_verified:
  assumes "fetch env f dir w = (r, w')"
  shows "(\<forall>n \<in> set rule_files. let t = rules_target dir n in
            file_at t (rw_fs w') = file_at t (rw_fs w) \<or> (\<exists>d. file_at t (rw_fs w') = Some d \<and> verified env f n d))
    \<and> (r = Inr () \<longrightarrow> (\<forall>n \<in> set rule_files. \<exists>d. file_at (rules_target dir n) (rw_fs w') = Some d \<and> verified env f n d))
    \<and> (\<forall>p. (\<forall>n \<in> set rule_files. p \<noteq> rules_target dir n \<and> p \<noteq> rules_target dir n @ ''.part'')
        \<longrightarrow> file_at p (rw_fs w') = file_at p (rw_fs w))
    \<and> (\<exists>reqs. rw_sent w' = rw_sent w @ reqs \<and> length reqs \<le> 2 * (1 + nat (max (ft_attempts f) 1)))"
proof -
  obtain x w1 where x: "on_fs (mkdir_all dir) w = (x, w1)" by fastforce
  have keep: "file_at p (rw_fs w1) = file_at p (rw_fs w)" "rw_sent w1 = rw_sent w" for p
    using x by (auto simp: on_fs_def file_at_def mkdir_all_def Let_def split: if_splits option.splits node.splits)
  show ?thesis
  proof (cases x)
    case (Inl e)
    then have "r \<noteq> Inr ()" "w' = w1" using assms x by (auto simp: fetch_def)
    then show ?thesis by (simp add: keep Let_def)
  next
    case (Inr u)
    then have f: "fetch_each env f dir rule_files w1 = (r, w')" using assms x by (simp add: fetch_def)
    have "names_ok rule_files" "length rule_files = 2"
      using rule_files_plain by (auto simp: names_ok_def rule_files_def)
    with fetch_each_spec [OF f] show ?thesis by (simp add: keep)
  qed
qed

text \<open>A server whose first download of each file is cut short.\<close>

definition toy_rules_env :: rules_env where
  "toy_rules_env = \<lparr>re_request = (\<lambda>_. Inr ()),
     re_http = (\<lambda>sent url. Inr \<lparr>wr_code = 200, wr_status = ''200 OK'',
       wr_data = (if has_suffix url ''.sha256sum'' then replicate 64 CHR ''6'' @ ''  f''
                  else if url \<in> set sent then ''good'' else ''go''),
       wr_error = None\<rparr>),
     re_sha256 = (\<lambda>d. replicate 32 (if d = ''good'' then CHR 0x66 else CHR 0x00))\<rparr>"

definition toy_rules_world :: rules_world where
  "toy_rules_world = \<lparr>rw_fs = plain_fs [(''/a/geoip.dat'', File ''old'')], rw_sent = [], rw_log = []\<rparr>"

lemma toy_fetch: "is_ok (fst (fetch toy_rules_env new_fetcher ''/a'' toy_rules_world))"
  by code_simp

lemma fetch_installs_verified_witness:
  "\<exists>d. file_at (rules_target ''/a'' ''geoip.dat'') (rw_fs (snd (fetch toy_rules_env new_fetcher ''/a'' toy_rules_world))) = Some d
     \<and> verified toy_rules_env new_fetcher ''geoip.dat'' d"
proof -
  have "fst (fetch toy_rules_env new_fetcher ''/a'' toy_rules_world) = Inr ()"
    using toy_fetch by (auto simp: is_ok_iff)
  with fetch_installs_verified [of toy_rules_env new_fetcher "''/a''" toy_rules_world, OF surjective_pairing]
  show ?thesis by (simp add: rule_files_def)
qed

end
