(* ===== verification/MainProgram.thy ===== *)
theory MainProgram
  imports Console Transport Paths Rules
begin

text \<open>
  \<open>main.go\<close>: the command line and what each way of running does, composed of the other components.
  The state is the record \<open>prog\<close>: the control client's world (whose files and log are everyone's),
  the DNS-over-HTTPS and rule-set requests sent, the engine, xray's asset variable and what is
  printed. Parameters are what the components have as parameters; \<open>me_over tr\<close> is the control
  client's environment over a transport, and \<open>flag.Parse\<close> is what it does to the options.
\<close>

section \<open>The command line\<close>

record cli_options =
  op_nodes_path :: string
  op_home_dir :: string
  op_identity :: string
  op_control_url :: string
  op_doh_list :: string
  op_pin_mode :: string
  op_pins_path :: string
  op_verify_url :: string
  op_route_mode :: string
  op_fetch_rules :: bool
  op_use_ech :: bool
  op_refresh :: bool
  op_auto_approve :: bool
  op_interactive :: bool
  op_dump :: bool
  op_refresh_every :: int
  op_sup :: sup_options

definition zero_sup :: sup_options where
  "zero_sup = \<lparr>so_listen = [], so_port = 0, so_host_slug = [], so_entry_group = [], so_root_domain = [],
     so_no_front = False, so_udp = False, so_route_mode = [], so_strategy = [], so_assets = [], so_max_entries = 0,
     so_probe_timeout = 0, so_probe_url = [], so_health_interval = 0, so_health_timeout = 0, so_mode = [], so_rtt = [],
     so_padding = [], so_flow = [], so_state_path = [], so_log_level = []\<rparr>"

definition zero_options :: cli_options where
  "zero_options = \<lparr>op_nodes_path = [], op_home_dir = [], op_identity = [], op_control_url = [], op_doh_list = [],
     op_pin_mode = [], op_pins_path = [], op_verify_url = [], op_route_mode = [], op_fetch_rules = False,
     op_use_ech = False, op_refresh = False, op_auto_approve = False, op_interactive = False, op_dump = False,
     op_refresh_every = 0, op_sup = zero_sup\<rparr>"

text \<open>Registering a flag gives its field the default.\<close>

definition register_proxy_flags :: "cli_options \<Rightarrow> cli_options" where
  "register_proxy_flags o1 = o1\<lparr>op_home_dir := [], op_nodes_path := [], op_route_mode := route_global, op_fetch_rules := False,
     op_sup := (op_sup o1)\<lparr>so_listen := ''127.0.0.1'', so_port := 18080, so_udp := False, so_host_slug := [],
       so_entry_group := [], so_root_domain := [], so_no_front := False, so_assets := [], so_strategy := [],
       so_max_entries := 0, so_probe_timeout := 3 * 1000000000\<rparr>\<rparr>"

definition register_wire_flags :: "cli_options \<Rightarrow> cli_options" where
  "register_wire_flags o1 = o1\<lparr>op_interactive := False, op_dump := False,
     op_sup := (op_sup o1)\<lparr>so_probe_url := [], so_health_interval := 60 * 1000000000, so_health_timeout := 15 * 1000000000,
       so_mode := default_mode, so_rtt := default_rtt, so_padding := default_padding, so_flow := default_flow,
       so_state_path := [], so_log_level := ''warning''\<rparr>\<rparr>"

definition register_control_flags :: "cli_options \<Rightarrow> cli_options" where
  "register_control_flags o1 = o1\<lparr>op_identity := [], op_refresh := False, op_auto_approve := False, op_verify_url := [],
     op_control_url := ''https://client-api.nexttun.net/api/v1/client'', op_doh_list := [], op_use_ech := True,
     op_pin_mode := ''tofu'', op_pins_path := [], op_refresh_every := 0\<rparr>"

definition parse_cli :: "(cli_options \<Rightarrow> cli_options) \<Rightarrow> cli_options" where
  "parse_cli parsed = parsed (register_control_flags (register_wire_flags (register_proxy_flags zero_options)))"

section \<open>State\<close>

record prog =
  pg_world :: world
  pg_doh :: doh_sent
  pg_rules :: "string list"
  pg_engine :: engine
  pg_assets :: "string option"
  pg_printed :: "string list"

record main_env =
  me_paths :: paths_env
  me_rules :: rules_env
  me_doh :: doh_env
  me_url :: "string \<Rightarrow> url result"
  me_over :: "doh_sent http_transport \<Rightarrow> client_env"
  me_random16 :: "string result"
  me_generated :: "string result"
  me_con :: con_env

definition log_printf :: "string \<Rightarrow> garg list \<Rightarrow> prog \<Rightarrow> prog" where
  "log_printf fmt args g = g\<lparr>pg_world := logf fmt args (pg_world g)\<rparr>"

definition prog_fs :: "prog \<Rightarrow> fs" where
  "prog_fs g = w_fs (pg_world g)"

definition set_fs :: "fs \<Rightarrow> prog \<Rightarrow> prog" where
  "set_fs f g = g\<lparr>pg_world := (pg_world g)\<lparr>w_fs := f\<rparr>\<rparr>"

section \<open>Paths, rules, routing\<close>

definition set_default :: "string \<Rightarrow> string \<Rightarrow> string \<times> bool" where
  "set_default field v = (if field \<noteq> [] then (field, False) else (v, True))"

definition apply_paths :: "main_env \<Rightarrow> cli_options \<Rightarrow> prog \<Rightarrow> cli_options result \<times> prog" where
  "apply_paths env o1 g =
     wbind (resolve_paths (me_paths env) (prog_fs g) (op_home_dir o1), g) (\<lambda>resolved g.
     case ensure_dir resolved (prog_fs g) of
       (Inl e, f) \<Rightarrow> (Inl (Errorf ''prepare %s: %w'' [AStr (pa_dir resolved), AErr e]), set_fs f g)
     | (Inr _, f) \<Rightarrow>
         (let g = set_fs f g;
              (nodes, a1) = set_default (op_nodes_path o1) (pa_nodes resolved);
              (identity, a2) = set_default (op_identity o1) (pa_identity resolved);
              (pins, a3) = set_default (op_pins_path o1) (pa_pins resolved);
              (state, a4) = set_default (so_state_path (op_sup o1)) (pa_state resolved);
              adopted = (a4 \<or> a3 \<or> a2 \<or> a1);
              (assets, _) = set_default (so_assets (op_sup o1)) (pa_assets resolved);
              o1 = o1\<lparr>op_nodes_path := nodes, op_identity := identity, op_pins_path := pins,
                op_sup := (op_sup o1)\<lparr>so_state_path := state, so_assets := assets\<rparr>\<rparr>
          in (Inr o1,
              if adopted \<and> using_legacy resolved then
                log_printf ''using state from the working directory; move it into %s to run from anywhere''
                  [AStr (pa_dir resolved)] g
              else g)))"

definition run_fetch :: "main_env \<Rightarrow> string \<Rightarrow> prog \<Rightarrow> unit result \<times> prog" where
  "run_fetch env dir g =
     (let g = log_printf ''fetching rule sets into %s'' [AStr dir] g;
          w = pg_world g;
          (r, rw) = fetch (me_rules env) new_fetcher dir \<lparr>rw_fs = w_fs w, rw_sent = pg_rules g, rw_log = w_log w\<rparr>;
          g = g\<lparr>pg_world := w\<lparr>w_fs := rw_fs rw, w_log := rw_log rw\<rparr>, pg_rules := rw_sent rw\<rparr>
      in case r of
           Inl e \<Rightarrow> (Inl e, g)
         | Inr _ \<Rightarrow> (Inr (), log_printf ''done; use -route smart -assets %s'' [AStr dir] g))"

definition apply_routing :: "main_env \<Rightarrow> cli_options \<Rightarrow> prog \<Rightarrow> cli_options result \<times> prog" where
  "apply_routing env o1 g =
     wbind (parse_route_mode (op_route_mode o1), g) (\<lambda>mode g.
     let o1 = o1\<lparr>op_sup := (op_sup o1)\<lparr>so_route_mode := mode\<rparr>\<rparr>;
         c = me_con env;
         ((dir, err), v) = resolve_assets (ev_cwd c) (ev_setenv c) (ev_loc c) (so_assets (op_sup o1)) (prog_fs g) (pg_assets g);
         g = g\<lparr>pg_assets := v\<rparr>
     in case err of
          Some e \<Rightarrow>
            if mode = route_smart then
              (Inl (Errorf (''smart routing needs the rule sets: %w'' @ [CHR 0x0A]
                 @ ''put geoip.dat and geosite.dat in %s, or pass -assets'') [AErr e, AStr dir]), g)
            else (Inr o1, g)
        | None \<Rightarrow> (Inr o1, g))"

section \<open>The control plane\<close>

definition resolver_ops :: "doh_env \<Rightarrow> doh \<Rightarrow>
    (string \<Rightarrow> doh_sent \<Rightarrow> string list result \<times> doh_sent) \<times> (string \<Rightarrow> doh_sent \<Rightarrow> string result \<times> doh_sent)" where
  "resolver_ops env r = (lookup_ip env r, lookup_ech env r)"

definition build_hardening :: "doh_env \<Rightarrow> string \<Rightarrow> bool \<Rightarrow> string \<Rightarrow> string \<Rightarrow> fs
    \<Rightarrow> (doh_sent hardening \<times> pin_store option) result" where
  "build_hardening env doh_list use_ech pin_mode pins_path fs =
     rbind (if doh_list = ''off'' then
              rbind (rcheck (\<not> use_ech) (Errorf ''-ech=true requires DoH; use -ech=false with -doh=off'' [])) (\<lambda>_. Inr None)
            else rbind (new_doh env (if doh_list = [] then [] else split_on CHR '','' doh_list)) (\<lambda>r. Inr (Some r))) (\<lambda>res.
     rbind (parse_mode pin_mode) (\<lambda>mode.
     rbind (if mode = ModeOff then Inr None else rbind (open_store pins_path fs) (\<lambda>s. Inr (Some s))) (\<lambda>store.
     Inr (\<lparr>h_lookup = map_option (resolver_ops env) res, h_ech = (res \<noteq> None \<and> use_ech),
           h_pins = (store \<noteq> None), h_pin_mode = mode\<rparr>, store))))"

record session_paths =
  sp_identity :: string
  sp_nodes :: string
  sp_control_url :: string

text \<open>The session, whether it is new, and the transport of its client.\<close>

definition open_hardened :: "main_env \<Rightarrow> session_paths \<Rightarrow> doh_sent hardening \<Rightarrow> prog
    \<Rightarrow> (session \<times> bool \<times> doh_sent http_transport) result \<times> prog" where
  "open_hardened env p h g =
     (case open_session (me_random16 env) (me_generated env) (sp_identity p) (sp_nodes p) (prog_fs g) of
        (Inl e, f) \<Rightarrow> (Inl e, set_fs f g)
      | (Inr (s, fresh), f) \<Rightarrow>
          (let g = set_fs f g;
               s = s\<lparr>se_client := (se_client s)\<lparr>cl_endpoint := sp_control_url p, cl_expect_ech := h_ech h\<rparr>\<rparr>
           in case new_hardened_client (me_url env) (sp_control_url p) h (pg_doh g) of
                (Inl e, d) \<Rightarrow> (Inl e, g\<lparr>pg_doh := d\<rparr>)
              | (Inr tr, d) \<Rightarrow> (Inr (s, fresh, tr), g\<lparr>pg_doh := d\<rparr>)))"

definition open_existing :: "main_env \<Rightarrow> session_paths \<Rightarrow> doh_sent hardening \<Rightarrow> prog
    \<Rightarrow> (session \<times> doh_sent http_transport) option result \<times> prog" where
  "open_existing env p h g =
     (case stat (sp_identity p) (prog_fs g) of
        Inl e \<Rightarrow> if is_not_exist e then (Inr None, g) else (Inl e, g)
      | Inr _ \<Rightarrow>
          wbind (open_hardened env p h g) (\<lambda>(s, fresh, tr) g.
          if fresh then (Inl (Errorf ''existing identity unexpectedly reopened as new'' []), g)
          else (Inr (Some (s, tr)), g)))"

definition refresh_inventory :: "main_env \<Rightarrow> session_paths \<Rightarrow> doh_sent hardening \<Rightarrow> bool \<Rightarrow> string \<Rightarrow> prog
    \<Rightarrow> unit result \<times> prog" where
  "refresh_inventory env p h auto_approve verify_url g =
     wbind (open_hardened env p h g) (\<lambda>(s, fresh, tr) g.
     let g = (if fresh then log_printf ''created a new client identity at %s'' [AStr (sp_identity p)] g else g);
         (r, st) = refresh (me_over env tr) (ev_wait (me_con env))
           \<lparr>o_auto_approve = auto_approve, o_verification_url = verify_url\<rparr> (s, pg_world g);
         g = g\<lparr>pg_world := snd st\<rparr>
     in case r of
          Inl e \<Rightarrow>
            (case as_needs_auth e of
               Some (_, url) \<Rightarrow> (Inl e, log_printf ''then run again with -refresh to finish'' []
                 (log_printf ''approve this client at: %s'' [AStr url] g))
             | None \<Rightarrow> (Inl e, g))
        | Inr iv \<Rightarrow> (Inr (), log_printf ''wrote %s: %d hosts, %d entry groups, %d root domains''
            [AStr (sp_nodes p), AInt (int (length (inv_hosts iv))), AInt (int (length (inv_entry_groups iv))),
             AInt (int (length (inv_root_domains iv)))] g))"

section \<open>Serving\<close>

text \<open>
  What happens while the proxy runs: the updater's events, the console's, and in the interactive
  mode the inventories the updater installs between the console's reads. There the updater shows
  only in these. A console whose events leave it waiting is taken to end there.
\<close>

record schedule =
  sc_watch :: "watch_event list"
  sc_console :: "con_event list"
  sc_swaps :: "inventory option list"

definition dump_config :: "main_env \<Rightarrow> inventory \<Rightarrow> sup_options \<Rightarrow> prog \<Rightarrow> unit result \<times> prog" where
  "dump_config env iv so g =
     (let w = pg_world g;
          (r, sw) = resolve (ev_sup (me_con env)) iv so \<lparr>sw_fs = w_fs w, sw_log = w_log w\<rparr>;
          g = g\<lparr>pg_world := w\<lparr>w_fs := sw_fs sw, w_log := sw_log sw\<rparr>\<rparr>
      in case r of Inl e \<Rightarrow> (Inl e, g) | Inr (_, t) \<Rightarrow> (Inr (), g\<lparr>pg_printed := pg_printed g @ [t]\<rparr>))"

definition start_serving :: "main_env \<Rightarrow> inventory \<Rightarrow> sup_options \<Rightarrow> prog \<Rightarrow> plan result \<times> prog" where
  "start_serving env iv so g =
     (let w = pg_world g; c = me_con env;
          (r, (sw, eng)) = start (ev_sup c) (ev_xray c) (ev_now c (en_created (pg_engine g))) iv so
            (\<lparr>sw_fs = w_fs w, sw_log = w_log w\<rparr>, pg_engine g)
      in (r, g\<lparr>pg_world := w\<lparr>w_fs := sw_fs sw, w_log := sw_log sw\<rparr>, pg_engine := eng\<rparr>))"

text \<open>Without the console nothing is installed: the updater only logs.\<close>

definition start_watching :: "main_env \<Rightarrow> (session \<times> doh_sent http_transport) option \<Rightarrow> int \<Rightarrow> inventory
    \<Rightarrow> watch_event list \<Rightarrow> prog \<Rightarrow> prog" where
  "start_watching env session every iv es g =
     (case session of
        None \<Rightarrow> g
      | Some (s, tr) \<Rightarrow>
          if every \<le> 0 then g
          else g\<lparr>pg_world := snd (updater_run (me_over env tr) (ev_wait (me_con env))
            \<lparr>wa_session = Some s, wa_interval = every, wa_notify = False\<rparr> es iv (pg_world g))\<rparr>)"

definition run_console :: "main_env \<Rightarrow> (session \<times> doh_sent http_transport) option \<Rightarrow> int \<Rightarrow> inventory \<Rightarrow> sup_options
    \<Rightarrow> schedule \<Rightarrow> prog \<Rightarrow> con_outcome \<times> prog" where
  "run_console env session every iv so sch g =
     (let c = me_con env;
          c = (case session of None \<Rightarrow> c | Some (_, tr) \<Rightarrow> c\<lparr>ev_client := me_over env tr\<rparr>);
          swaps = (if session = None \<or> every \<le> 0 then [] else sc_swaps sch);
          (out, con) = console_run c (sc_console sch)
            (new_console (pg_engine g) iv so (map_option fst session) (pg_world g) (pg_assets g) swaps)
      in (out, g\<lparr>pg_world := co_world con, pg_engine := co_engine con, pg_assets := co_assets con\<rparr>))"

text \<open>\<open>defer eng.Stop ()\<close> runs on every return; a console that crashes the program returns no error.\<close>

definition with_engine :: "main_env \<Rightarrow> (prog \<Rightarrow> 'a \<times> prog) \<Rightarrow> prog \<Rightarrow> 'a \<times> prog" where
  "with_engine env f g =
     (let (r, g) = f (g\<lparr>pg_engine := new_engine\<rparr>)
      in (r, g\<lparr>pg_engine := snd (stop_engine (ev_xray (me_con env)) (pg_engine g))\<rparr>))"

definition serve :: "main_env \<Rightarrow> inventory \<Rightarrow> sup_options \<Rightarrow> bool \<Rightarrow> session_paths \<Rightarrow> doh_sent hardening \<Rightarrow> int
    \<Rightarrow> schedule \<Rightarrow> prog \<Rightarrow> unit result \<times> prog" where
  "serve env iv so interactive p h every sch g =
     wbind (start_serving env iv so g) (\<lambda>_ g.
     let (x, g) = open_existing env p h g;
         session = (case x of Inl _ \<Rightarrow> None | Inr s \<Rightarrow> s)
     in if \<not> is_ok x \<and> interactive then (case x of Inl e \<Rightarrow> (Inl e, g) | Inr _ \<Rightarrow> (Inr (), g))
        else if \<not> interactive then
          (Inr (), log_printf ''shutting down'' [] (start_watching env session every iv (sc_watch sch) g))
        else (case run_console env session every iv so sch g of
                (Returned (Some e), g) \<Rightarrow> (Inl e, log_printf ''shutting down'' [] g)
              | (Crashed m, g) \<Rightarrow> (Inl (Panic m), g)
              | (_, g) \<Rightarrow> (Inr (), log_printf ''shutting down'' [] g)))"

definition run_proxy :: "main_env \<Rightarrow> inventory \<Rightarrow> sup_options \<Rightarrow> bool \<Rightarrow> session_paths \<Rightarrow> doh_sent hardening \<Rightarrow> int
    \<Rightarrow> schedule \<Rightarrow> prog \<Rightarrow> unit result \<times> prog" where
  "run_proxy env iv so interactive p h every sch = with_engine env (serve env iv so interactive p h every sch)"

definition execute :: "main_env \<Rightarrow> cli_options \<Rightarrow> schedule \<Rightarrow> prog \<Rightarrow> unit result \<times> prog" where
  "execute env o1 sch g =
     wbind (apply_paths env o1 g) (\<lambda>o1 g.
     if op_fetch_rules o1 then run_fetch env (so_assets (op_sup o1)) g
     else
       wbind (apply_routing env o1 g) (\<lambda>o1 g.
       wbind (build_hardening (me_doh env) (op_doh_list o1) (op_use_ech o1) (op_pin_mode o1) (op_pins_path o1) (prog_fs g), g)
         (\<lambda>(h, pins) g.
       let p = \<lparr>sp_identity = op_identity o1, sp_nodes = op_nodes_path o1, sp_control_url = op_control_url o1\<rparr>
       in if op_refresh o1 then refresh_inventory env p h (op_auto_approve o1) (op_verify_url o1) g
          else
            wbind (load (op_nodes_path o1) (prog_fs g), g) (\<lambda>iv g.
            if op_dump o1 then dump_config env iv (op_sup o1) g
            else run_proxy env iv (op_sup o1) (op_interactive o1) p h (op_refresh_every o1) sch g))))"


section \<open>From the command line to a connection\<close>

lemma build_hardening_cases:
  assumes "build_hardening env doh_list use_ech pm path fs = Inr (h, store)"
  shows "use_ech \<longrightarrow> doh_list \<noteq> ''off'' \<and> h_ech h"
    "pm \<noteq> ''off'' \<longrightarrow> h_pins h \<and> h_pin_mode h \<noteq> ModeOff \<and> (\<exists>st. store = Some st \<and> open_store path fs = Inr st)"
    "doh_list = ''off'' \<longrightarrow> h_lookup h = None"
    "doh_list \<noteq> ''off'' \<longrightarrow> (\<exists>us r. new_doh env us = Inr r \<and> h_lookup h = Some (resolver_ops env r))"
proof -
  show "use_ech \<longrightarrow> doh_list \<noteq> ''off'' \<and> h_ech h" "doh_list = ''off'' \<longrightarrow> h_lookup h = None"
    "pm \<noteq> ''off'' \<longrightarrow> h_pins h \<and> h_pin_mode h \<noteq> ModeOff \<and> (\<exists>st. store = Some st \<and> open_store path fs = Inr st)"
    using assms by (auto simp: build_hardening_def res_simps parse_mode_def split: if_splits)
  have "\<exists>r. new_doh env (if doh_list = [] then [] else split_on CHR '','' doh_list) = Inr r
      \<and> h_lookup h = Some (resolver_ops env r)" if "doh_list \<noteq> ''off''"
    using assms that by (auto simp: build_hardening_def res_simps)
  then show "doh_list \<noteq> ''off'' \<longrightarrow> (\<exists>us r. new_doh env us = Inr r \<and> h_lookup h = Some (resolver_ops env r))" by blast
qed

text \<open>Requests that need no name resolved.\<close>

definition ip_requests :: "doh_env \<Rightarrow> doh_sent \<Rightarrow> bool" where
  "ip_requests env reqs \<longleftrightarrow> (\<forall>(u, b) \<in> set reqs.
     \<exists>x. de_url env u = Inr x \<and> url_scheme x = ''https'' \<and> \<not> url_user x \<and> is_ip (url_hostname x))"

lemma asks_only_ip:
  assumes "new_doh env us = Inr r" "asks_only r s s'"
  shows "\<exists>reqs. s' = s @ reqs \<and> ip_requests env reqs"
proof -
  obtain reqs where "s' = s @ reqs" "\<forall>(u, b) \<in> set reqs. u \<in> set r" using assms(2) by (auto simp: asks_only_def)
  moreover from this have "ip_requests env reqs"
    using new_doh_upstreams [OF assms(1)] by (auto simp: ip_requests_def)
  ultimately show ?thesis by blast
qed

text \<open>
  C1: What the flags promise holds of every connection to the control plane: it was checked for
  the host of the https URL it was given; with \<open>-ech\<close> its ECH was accepted; unless \<open>-pin-mode off\<close> its
  chain shows a key pinned for that host in the store; and unless \<open>-doh off\<close> building the client and
  connecting sent DNS queries only to IP-literal HTTPS upstreams.
\<close>

lemma flags_harden:
  assumes "build_hardening env doh_list use_ech pm path fs = Inr (h, store)"
    and "new_hardened_client parse endpoint h s = (Inr tr, s')" "connect te tr addr st = (Inr c, st')"
  shows "\<exists>u. parse endpoint = Inr u \<and> url_scheme u = ''https'' \<and> tc_server_name (cn_config c) = to_lower (url_hostname u)
    \<and> (use_ech \<longrightarrow> cn_ech_accepted c)
    \<and> (pm \<noteq> ''off'' \<longrightarrow> (\<exists>chain \<in> set (cn_chains c). \<exists>cert \<in> set chain.
         spki (te_sha256 te) cert \<in> set (store_get (ds_pins st') (to_lower (url_hostname u)))))
    \<and> (doh_list \<noteq> ''off'' \<longrightarrow> (\<exists>reqs reqs'. s' = s @ reqs \<and> ds_res st' = ds_res st @ reqs'
         \<and> ip_requests env (reqs @ reqs')))"
proof -
  note h = build_hardening_cases [OF assms(1)]
  obtain u where u: "parse endpoint = Inr u" "url_scheme u = ''https''"
    "tc_server_name (cn_config c) = to_lower (url_hostname u)" "h_ech h \<longrightarrow> cn_ech_accepted c"
    "h_pins h \<and> h_pin_mode h \<noteq> ModeOff \<longrightarrow> (\<exists>chain \<in> set (cn_chains c). \<exists>cert \<in> set chain.
         spki (te_sha256 te) cert \<in> set (store_get (ds_pins st') (to_lower (url_hostname u))))"
    using client_connects [OF assms(2,3)] by blast
  have dns: "\<exists>reqs reqs'. s' = s @ reqs \<and> ds_res st' = ds_res st @ reqs' \<and> ip_requests env (reqs @ reqs')"
    if "doh_list \<noteq> ''off''"
  proof -
    obtain us r where r: "new_doh env us = Inr r" "h_lookup h = Some (resolver_ops env r)" using h(4) \<open>doh_list \<noteq> ''off''\<close> by blast
    have l: "h_lookup h \<in> {None, Some (lookup_ip env r, lookup_ech env r)}" using r(2) by (simp add: resolver_ops_def)
    have t: "tr_lookup tr \<in> {None, Some (lookup_ip env r)}"
      using new_client_config [OF assms(2)] r(2) by (auto simp: resolver_ops_def)
    obtain reqs where "s' = s @ reqs" "ip_requests env reqs"
      using asks_only_ip [OF r(1) doh.client_asks [OF assms(2) l]] by blast
    moreover obtain reqs' where "ds_res st' = ds_res st @ reqs'" "ip_requests env reqs'"
      using asks_only_ip [OF r(1) doh.connect_asks [OF assms(3) t]] by blast
    ultimately show ?thesis by (auto simp: ip_requests_def)
  qed
  show ?thesis
    using u h dns by (intro exI [of _ u]) blast
qed


text \<open>A resolver whose records carry an ECH configuration the server accepts.\<close>

definition ech_doh_env :: doh_env where
  "ech_doh_env = toy_doh_env\<lparr>de_pack := (\<lambda>n t. Inr n), de_unpack := (\<lambda>p. Inr \<lparr>dm_response = True, dm_rcode = 0,
     dm_answers = [AResource (replicate 4 CHR 0x01), HTTPSResource [(5, ''new'')]]\<rparr>)\<rparr>"

lemma ech_doh:
  "new_doh ech_doh_env [''a'', ''b''] = Inr [''a'', ''b'']"
  "\<exists>s'. lookup_ip ech_doh_env [''a'', ''b''] name s = (Inr [replicate 4 CHR 0x01, replicate 4 CHR 0x01], s')"
  "\<exists>s'. lookup_ech ech_doh_env [''a'', ''b''] name s = (Inr ''new'', s')"
proof -
  have ip: "is_ip ''192.0.2.9''" by code_simp
  have sp: "trim_space ''a'' = ''a''" "trim_space ''b'' = ''b''" by code_simp+
  show "new_doh ech_doh_env [''a'', ''b''] = Inr [''a'', ''b'']"
    by (simp add: new_doh_def validate_upstreams_def upstream_ok_def ech_doh_env_def toy_doh_env_def ip sp)
  have q: "\<exists>s'. doh_query ech_doh_env [''a'', ''b''] name t s
      = (Inr [AResource (replicate 4 CHR 0x01), HTTPSResource [(5, ''new'')]], s')" for name t s
    by (simp add: doh_query_def build_query_def doh_exchange_def doh_answer_def parse_answers_def
        ech_doh_env_def toy_doh_env_def)
  obtain s1 where 1: "doh_query ech_doh_env [''a'', ''b''] name TypeA s
      = (Inr [AResource (replicate 4 CHR 0x01), HTTPSResource [(5, ''new'')]], s1)" using q by blast
  obtain s2 where 2: "doh_query ech_doh_env [''a'', ''b''] name TypeAAAA s1
      = (Inr [AResource (replicate 4 CHR 0x01), HTTPSResource [(5, ''new'')]], s2)" using q by blast
  show "\<exists>s'. lookup_ip ech_doh_env [''a'', ''b''] name s = (Inr [replicate 4 CHR 0x01, replicate 4 CHR 0x01], s')"
    by (simp add: lookup_ip_def 1 2 map_filter_def)
  show "\<exists>s'. lookup_ech ech_doh_env [''a'', ''b''] name s = (Inr ''new'', s')"
    using q [of name TypeHTTPS s] by (auto simp: lookup_ech_def ech_key_def)
qed

definition flags_transport :: "doh_sent http_transport" where
  "flags_transport = \<lparr>tr_tls = \<lparr>tc_server_name = ''c.example'', tc_pin_mode = ModeTOFU, tc_ech = ''new'', tc_min13 = True,
       tc_require_ech = True, tc_protos = [''h2'', ''http/1.1'']\<rparr>,
     tr_lookup = Some (lookup_ip ech_doh_env [''a'', ''b'']), tr_ech_dialer = True\<rparr>"

definition flags_hardening :: "doh_sent hardening" where
  "flags_hardening = \<lparr>h_lookup = Some (resolver_ops ech_doh_env [''a'', ''b'']), h_ech = True, h_pins = True,
     h_pin_mode = ModeTOFU\<rparr>"

lemma flags_harden_witness:
  "\<exists>c st'. connect toy_tls_env flags_transport ''c.example:443''
      \<lparr>ds_res = [], ds_pins = empty_pins, ds_config = ''new'', ds_offered = []\<rparr> = (Inr c, st') \<and> cn_ech_accepted c"
proof -
  have low: "to_lower ''c.example'' = ''c.example''" by code_simp
  have "trim_space ''/d/pins.json'' \<noteq> []" "split_on CHR '','' ''a,b'' = [''a'', ''b'']" by code_simp+
  then have b: "build_hardening ech_doh_env ''a,b'' True ''tofu'' ''/d/pins.json'' (plain_fs [])
      = Inr (flags_hardening, Some \<lparr>ps_path = ''/d/pins.json'', ps_pins = []\<rparr>)"
    by (simp add: build_hardening_def ech_doh parse_mode_def open_store_def read_file_def plain_fs_def flags_hardening_def)
  obtain s' where e: "lookup_ech ech_doh_env [''a'', ''b''] ''c.example'' [] = (Inr ''new'', s')" using ech_doh(3) by blast
  let ?parse = "\<lambda>s. Inr \<lparr>url_scheme = ''https'', url_user = False, url_host = ''c.example'',
       url_hostname = ''c.example'', url_path = [], url_text = s\<rparr>"
  have n: "new_hardened_client ?parse ''https://c.example'' flags_hardening [] = (Inr flags_transport, s')"
    by (simp add: new_hardened_client_def endpoint_host_def wbind_def configure_ech_def base_tls_def use_ech_dialer_def
        flags_transport_def flags_hardening_def resolver_ops_def e low Let_def del: to_lower.simps)
  obtain s2 where ip: "lookup_ip ech_doh_env [''a'', ''b''] ''c.example'' [] = (Inr [replicate 4 CHR 0x01, replicate 4 CHR 0x01], s2)"
    using ech_doh(2) by blast
  have p: "split_host_port ''c.example:443'' = Inr (''c.example'', ''443'')" "is_ip ''c.example'' = False"
    "join_host_port (ip_text (replicate 4 CHR 0x01)) ''443'' = ''1.1.1.1:443''" by code_simp+
  have a: "dial_addr flags_transport (te_net toy_tls_env) ''c.example:443'' [] = (Inr ''1.1.1.1:443'', s2)"
    unfolding dial_addr_def dial_via_resolver_def flags_transport_def toy_tls_env_def by (simp add: p ip Let_def)
  obtain v where v: "verifier toy_hash ModeTOFU ''c.example'' = Some v" by (simp add: verifier_def)
  then obtain ps' where ps: "v [[''k1'', ''ca'']] empty_pins = (Inr (), ps')" using toy_first_use by auto
  have tr: "tr_ech_dialer flags_transport" by (simp add: flags_transport_def)
  obtain c st' where c: "connect toy_tls_env flags_transport ''c.example:443''
      \<lparr>ds_res = [], ds_pins = empty_pins, ds_config = ''new'', ds_offered = []\<rparr> = (Inr c, st')"
    unfolding connect_def dial_tls_def attempt_def current_def handshake_def verify_peer_def
    by (simp add: a tr) (simp add: flags_transport_def toy_tls_env_def Let_def v ps require_ech_def)
  with flags_harden [OF b n c] show ?thesis by auto
qed


section \<open>Properties\<close>

text \<open>
  C40: A path that was given is kept and every other is the one its place resolves to. The notice
  about the working directory is logged exactly when some default was used and some resolved path
  is relative; so also when the relative one was overridden and no path in use is relative.
\<close>

lemma apply_paths_spec:
  assumes "apply_paths env o1 g = (Inr o2, g')"
  shows "\<exists>p. resolve_paths (me_paths env) (prog_fs g) (op_home_dir o1) = Inr p
    \<and> op_nodes_path o2 = (if op_nodes_path o1 \<noteq> [] then op_nodes_path o1 else pa_nodes p)
    \<and> op_identity o2 = (if op_identity o1 \<noteq> [] then op_identity o1 else pa_identity p)
    \<and> op_pins_path o2 = (if op_pins_path o1 \<noteq> [] then op_pins_path o1 else pa_pins p)
    \<and> so_state_path (op_sup o2) = (if so_state_path (op_sup o1) \<noteq> [] then so_state_path (op_sup o1) else pa_state p)
    \<and> so_assets (op_sup o2) = (if so_assets (op_sup o1) \<noteq> [] then so_assets (op_sup o1) else pa_assets p)
    \<and> w_log (pg_world g') = w_log (pg_world g) @
        (if [] \<in> {op_nodes_path o1, op_identity o1, op_pins_path o1, so_state_path (op_sup o1)} \<and> using_legacy p
         then [(''using state from the working directory; move it into %s to run from anywhere'', [AStr (pa_dir p)])] else [])"
proof -
  obtain p where p: "resolve_paths (me_paths env) (prog_fs g) (op_home_dir o1) = Inr p"
    using assms by (cases "resolve_paths (me_paths env) (prog_fs g) (op_home_dir o1)") (auto simp: apply_paths_def)
  obtain f where f: "ensure_dir p (prog_fs g) = (Inr (), f)"
    using assms p by (cases "ensure_dir p (prog_fs g)"; cases "fst (ensure_dir p (prog_fs g))") (auto simp: apply_paths_def)
  show ?thesis
    using assms by (intro exI [of _ p])
      (simp add: apply_paths_def p f set_default_def set_fs_def log_printf_def logf_def Let_def split: if_splits; auto)
qed

text \<open>The identity in the working directory, overridden by a flag: every path in use is absolute.\<close>

definition legacy_prog :: prog where
  "legacy_prog = \<lparr>pg_world = toy_world\<lparr>w_fs := plain_fs [(''tunnet-lite-identity.json'', File ''id'')]\<rparr>,
     pg_doh = [], pg_rules = [], pg_engine = new_engine, pg_assets = None, pg_printed = []\<rparr>"

definition legacy_main :: main_env where
  "legacy_main = \<lparr>me_paths = legacy_env, me_rules = toy_rules_env, me_doh = ech_doh_env, me_url = toy_url,
     me_over = (\<lambda>_. toy_env (toy_srv [])), me_random16 = Inr (replicate 16 CHR 0x01), me_generated = Inr ''k'', me_con = toy_con_env\<rparr>"

lemma apply_paths_spec_witness:
  "\<exists>o2 g'. apply_paths legacy_main (zero_options\<lparr>op_identity := ''/x/id.json''\<rparr>) legacy_prog = (Inr o2, g')
    \<and> op_identity o2 = ''/x/id.json'' \<and> op_nodes_path o2 = ''/c/tunnet-lite/nodes.json'' \<and> length (w_log (pg_world g')) = 1"
proof -
  let ?p = "\<lparr>pa_dir = ''/c/tunnet-lite'', pa_nodes = ''/c/tunnet-lite/nodes.json'', pa_identity = ''tunnet-lite-identity.json'',
      pa_pins = ''/c/tunnet-lite/pins.json'', pa_state = ''/c/tunnet-lite/state.json'', pa_assets = ''/c/tunnet-lite/assets''\<rparr>"
  let ?o = "zero_options\<lparr>op_identity := ''/x/id.json''\<rparr>"
  have p: "resolve_paths (me_paths legacy_main) (prog_fs legacy_prog) (op_home_dir ?o) = Inr ?p" by code_simp
  have "is_ok (fst (apply_paths legacy_main ?o legacy_prog))" by code_simp
  then obtain o2 g' where a: "apply_paths legacy_main ?o legacy_prog = (Inr o2, g')"
    by (cases "apply_paths legacy_main ?o legacy_prog") (auto simp: is_ok_iff)
  from apply_paths_spec [OF a] p show ?thesis
    using a by (auto simp: zero_options_def zero_sup_def using_legacy_def is_abs_def slash_def legacy_prog_def toy_world_def)
qed



definition refresh_main :: "string list \<Rightarrow> main_env" where
  "refresh_main answers = legacy_main\<lparr>me_url := (\<lambda>s. Inr \<lparr>url_scheme = ''https'', url_user = False, url_host = ''c.example'',
       url_hostname = ''c.example'', url_path = [], url_text = s\<rparr>), me_over := (\<lambda>_. toy_env (toy_srv answers))\<rparr>"



lemma engine_kept:
  "pg_engine (log_printf fmt args g) = pg_engine g" "pg_engine (set_fs f g) = pg_engine g"
  by (simp_all add: log_printf_def set_fs_def)

lemma apply_paths_engine: "apply_paths env o1 g = (r, g') \<Longrightarrow> pg_engine g' = pg_engine g
    \<and> (\<forall>o2. r = Inr o2 \<longrightarrow> op_fetch_rules o2 = op_fetch_rules o1 \<and> op_refresh o2 = op_refresh o1 \<and> op_dump o2 = op_dump o1)"
  by (auto simp: apply_paths_def wbind_def engine_kept Let_def split: sum.splits prod.splits if_splits)

lemma apply_routing_engine: "apply_routing env o1 g = (r, g') \<Longrightarrow> pg_engine g' = pg_engine g
    \<and> (\<forall>o2. r = Inr o2 \<longrightarrow> op_refresh o2 = op_refresh o1 \<and> op_dump o2 = op_dump o1)"
  by (auto simp: apply_routing_def wbind_def Let_def split: sum.splits prod.splits if_splits option.splits)

lemma run_fetch_engine: "pg_engine (snd (run_fetch env dir g)) = pg_engine g"
  by (auto simp: run_fetch_def engine_kept Let_def split: sum.splits prod.splits)

lemma open_hardened_engine: "open_hardened env p h g = (r, g') \<Longrightarrow> pg_engine g' = pg_engine g"
  by (auto simp: open_hardened_def engine_kept Let_def split: sum.splits prod.splits)

lemma open_existing_engine: "open_existing env p h g = (r, g') \<Longrightarrow> pg_engine g' = pg_engine g"
  by (auto simp: open_existing_def wbind_def dest: open_hardened_engine split: sum.splits prod.splits if_splits)

lemma refresh_inventory_engine: "pg_engine (snd (refresh_inventory env p h auto url g)) = pg_engine g"
proof -
  obtain x g1 where x: "open_hardened env p h g = (x, g1)" by (rule prod.exhaust) (rule that)
  then show ?thesis
    using open_hardened_engine [OF x]
    by (cases x) (auto simp: refresh_inventory_def x engine_kept Let_def split: sum.splits prod.splits option.splits)
qed

lemma dump_config_engine: "pg_engine (snd (dump_config env iv so g)) = pg_engine g"
  by (auto simp: dump_config_def Let_def split: sum.splits prod.splits)

lemma start_watching_engine: "pg_engine (start_watching env s every iv es g) = pg_engine g"
  by (simp add: start_watching_def split: option.splits prod.splits)

lemma start_serving_engine:
  assumes "start_serving env iv so g = (r, g')" "validate iv = Inr ()" "shows_entries (pg_engine g)"
  shows "shows_entries (pg_engine g')"
proof -
  let ?w = "pg_world g" and ?c = "me_con env"
  obtain x sw eng where x: "start (ev_sup ?c) (ev_xray ?c) (ev_now ?c (en_created (pg_engine g))) iv so
      (\<lparr>sw_fs = w_fs ?w, sw_log = w_log ?w\<rparr>, pg_engine g) = (x, (sw, eng))" by (metis prod.exhaust)
  then have "pg_engine g' = eng" using assms(1) by (auto simp: start_serving_def Let_def)
  then show ?thesis using start_safe(2) [OF x assms(2,3)] by simp
qed

lemma run_console_engine:
  assumes "run_console env session every iv so sch g = (out, g')" "validate iv = Inr ()" "shows_entries (pg_engine g)"
    and "set (sc_swaps sch) \<subseteq> {None}"
  shows "shows_entries (pg_engine g') \<and> (\<forall>m. out \<noteq> Crashed m)"
proof -
  define c where "c = (case session of None \<Rightarrow> me_con env | Some (_, tr) \<Rightarrow> (me_con env)\<lparr>ev_client := me_over env tr\<rparr>)"
  define con where "con = new_console (pg_engine g) iv so (map_option fst session) (pg_world g) (pg_assets g)
      (if session = None \<or> every \<le> 0 then [] else sc_swaps sch)"
  obtain o' con' where r: "console_run c (sc_console sch) con = (o', con')" by (rule prod.exhaust) (rule that)
  have "out = o'" "pg_engine g' = co_engine con'"
    using assms(1) r by (auto simp: run_console_def c_def [symmetric] con_def [symmetric] Let_def)
  moreover have "validate (co_inv con) = Inr ()" "set (co_swaps con) \<subseteq> {None}" "shows_entries (co_engine con)"
    using assms(2-4) by (simp_all add: con_def new_console_def)
  ultimately show ?thesis using console_run_safe [OF r] by simp
qed

lemma with_engine_stops:
  assumes "\<And>g0. shows_entries (pg_engine g0) \<Longrightarrow> shows_entries (pg_engine (snd (f g0)))"
  shows "en_live (pg_engine (snd (with_engine env f g))) = []"
proof -
  obtain r g1 where f: "f (g\<lparr>pg_engine := new_engine\<rparr>) = (r, g1)" by (rule prod.exhaust) (rule that)
  have "shows_entries new_engine" using engine_ok_new by (simp add: shows_entries_def new_engine_def)
  then have "shows_entries (pg_engine g1)" using assms [of "g\<lparr>pg_engine := new_engine\<rparr>"] f by simp
  then show ?thesis
    using stop_locked_ok(4) by (simp add: with_engine_def f stop_engine_def shows_entries_def)
qed

lemma run_proxy_engine:
  assumes "validate iv = Inr ()" "set (sc_swaps sch) \<subseteq> {None}"
  shows "en_live (pg_engine (snd (run_proxy env iv so interactive p h every sch g))) = []"
  unfolding run_proxy_def
proof (rule with_engine_stops)
  fix g0 :: prog assume g0: "shows_entries (pg_engine g0)"
  obtain r1 g1 where 1: "start_serving env iv so g0 = (r1, g1)" by (rule prod.exhaust) (rule that)
  have e1: "shows_entries (pg_engine g1)" by (rule start_serving_engine [OF 1 assms(1) g0])
  obtain x g2 where 2: "open_existing env p h g1 = (x, g2)" by (rule prod.exhaust) (rule that)
  have e2: "shows_entries (pg_engine g2)" using open_existing_engine [OF 2] e1 by simp
  define session where "session = (case x of Inl _ \<Rightarrow> None | Inr s \<Rightarrow> s)"
  obtain out g3 where 3: "run_console env session every iv so sch g2 = (out, g3)" by (rule prod.exhaust) (rule that)
  have e3: "shows_entries (pg_engine g3)" using run_console_engine [OF 3 assms(1) e2 assms(2)] by simp
  show "shows_entries (pg_engine (snd (serve env iv so interactive p h every sch g0)))"
    using e1 e2 e3 by (auto simp: serve_def wbind_def 1 2 3 session_def [symmetric] engine_kept start_watching_engine
        split: sum.splits con_outcome.splits option.splits)
qed

text \<open>
  C13: Whatever \<open>execute\<close> does and however it ends, no xray instance is left running: fetching rules,
  refreshing and printing the configuration do not touch the engine, and serving stops it on every
  return. (With the console, while no updater installs an inventory under it; see the race there.)
\<close>

lemma execute_stops_engine:
  assumes "execute env o1 sch g = (r, g')" "set (sc_swaps sch) \<subseteq> {None}" "en_live (pg_engine g) = []"
  shows "en_live (pg_engine g') = [] \<and>
    (op_fetch_rules o1 \<or> op_refresh o1 \<or> op_dump o1 \<longrightarrow> pg_engine g' = pg_engine g)"
proof -
  obtain x1 g1 where 1: "apply_paths env o1 g = (x1, g1)" by (rule prod.exhaust) (rule that)
  note e1 = apply_paths_engine [OF 1]
  show ?thesis
  proof (cases x1)
    case (Inl e)
    then have "g' = g1" using assms(1) 1 by (simp add: execute_def)
    then show ?thesis using e1 assms(3) by simp
  next
    case o2: (Inr o2)
    show ?thesis
    proof (cases "op_fetch_rules o2")
      case True
      then have "g' = snd (run_fetch env (so_assets (op_sup o2)) g1)" using assms(1) 1 o2 by (simp add: execute_def)
      then show ?thesis using e1 assms(3) by (simp add: run_fetch_engine)
    next
      case False
      obtain x2 g2 where 2: "apply_routing env o2 g1 = (x2, g2)" by (rule prod.exhaust) (rule that)
      note e2 = apply_routing_engine [OF 2]
      show ?thesis
      proof (cases x2)
        case (Inl e)
        then have "g' = g2" using assms(1) 1 2 o2 False by (simp add: execute_def)
        then show ?thesis using e1 e2 assms(3) by simp
      next
        case o3: (Inr o3)
        let ?h = "build_hardening (me_doh env) (op_doh_list o3) (op_use_ech o3) (op_pin_mode o3) (op_pins_path o3) (prog_fs g2)"
        let ?p = "\<lparr>sp_identity = op_identity o3, sp_nodes = op_nodes_path o3, sp_control_url = op_control_url o3\<rparr>"
        have ex: "(r, g') = wbind (?h, g2) (\<lambda>(h, pins) g.
            if op_refresh o3 then refresh_inventory env ?p h (op_auto_approve o3) (op_verify_url o3) g
            else wbind (load (op_nodes_path o3) (prog_fs g), g) (\<lambda>iv g.
              if op_dump o3 then dump_config env iv (op_sup o3) g
              else run_proxy env iv (op_sup o3) (op_interactive o3) ?p h (op_refresh_every o3) sch g))"
          using assms(1) 1 2 o2 o3 False by (simp add: execute_def Let_def)
        have flags: "op_fetch_rules o1 = False" "op_refresh o3 = op_refresh o1" "op_dump o3 = op_dump o1" "pg_engine g2 = pg_engine g"
          using e1 e2 o2 o3 False by auto
        have valid: "load path fs = Inr iv \<Longrightarrow> validate iv = Inr ()" for path fs iv by (auto simp: load_def res_simps)
        have eng: "g' = g2 \<or> (\<exists>h. op_refresh o3 \<and> g' = snd (refresh_inventory env ?p h (op_auto_approve o3) (op_verify_url o3) g2))
            \<or> (\<exists>iv. op_dump o3 \<and> g' = snd (dump_config env iv (op_sup o3) g2))
            \<or> (\<exists>iv h. \<not> op_refresh o3 \<and> \<not> op_dump o3 \<and> validate iv = Inr () \<and>
                g' = snd (run_proxy env iv (op_sup o3) (op_interactive o3) ?p h (op_refresh_every o3) sch g2))"
        proof (cases ?h)
          case (Inl e)
          then show ?thesis using ex by simp
        next
          case (Inr hp)
          then show ?thesis
            using ex valid by (cases "load (op_nodes_path o3) (prog_fs g2)")
              (auto simp: split_def split: if_splits, (metis snd_conv)+)
        qed
        then show ?thesis
          using flags assms(3) run_proxy_engine [OF _ assms(2)]
          by (auto simp: refresh_inventory_engine dump_config_engine)
      qed
    qed
  qed
qed

definition console_options :: cli_options where
  "console_options = parse_cli (\<lambda>o1. o1\<lparr>op_home_dir := ''/d'', op_pin_mode := ''off'', op_doh_list := ''off'',
     op_use_ech := False, op_interactive := True\<rparr>)"

lemma execute_stops_engine_witness:
  "\<exists>r g'. execute legacy_main console_options
      \<lparr>sc_watch = [], sc_console = [Line ''start'', Line ''stop'', Line ''start'', InputEnd None], sc_swaps = []\<rparr>
      (legacy_prog\<lparr>pg_world := toy_world\<lparr>w_fs := plain_fs [(''/d'', Dir), (''/d/nodes.json'', File (inventory_text sample_inventory))]\<rparr>\<rparr>)
    = (r, g') \<and> en_live (pg_engine g') = []"
proof -
  obtain r g' where e: "execute legacy_main console_options
      \<lparr>sc_watch = [], sc_console = [Line ''start'', Line ''stop'', Line ''start'', InputEnd None], sc_swaps = []\<rparr>
      (legacy_prog\<lparr>pg_world := toy_world\<lparr>w_fs := plain_fs [(''/d'', Dir), (''/d/nodes.json'', File (inventory_text sample_inventory))]\<rparr>\<rparr>)
    = (r, g')" by (rule prod.exhaust) (rule that)
  have "en_live (pg_engine g') = []"
    using execute_stops_engine [OF e] by (simp add: legacy_prog_def new_engine_def)
  with e show ?thesis by blast
qed

end
