(* ===== verification/Spec2Isabelle.thy ===== *)
theory Spec2Isabelle
  imports InventoryDiff Pinning Version Refresh Supervisor MainProgram
begin

text \<open>
  tunnet-lite is a local SOCKS proxy. It keeps an inventory of exit hosts, entry addresses and root
  domains, fetched from a control plane that it authenticates to with a signed, encrypted exchange;
  from the inventory and the user's choices it renders a configuration for xray-core and runs it in
  the same process. This development models the Go program (\<open>src/main.go\<close> and \<open>src/internal\<close>) as
  functions over explicit state and proves what makes each component correct.

  \<^bold>\<open>How the program is put together.\<close> \<open>main.go\<close> resolves the paths, builds the hardening of the control
  connection (resolver, ECH, pins) and then refreshes, prints or serves. A refresh opens a session,
  which calls the control client over the hardened transport and stores the directory it gets.
  Serving loads the inventory, has the supervisor choose exit, entry and root, has \<open>xcfg\<close> render the
  configuration and the engine run it, and then either waits while the updater polls, or runs the
  console, which drives the same supervisor, engine and session.

  \<^bold>\<open>Go and its library.\<close> \<open>Prelude\<close>: errors as values with \<open>errors.Is\<close> and \<open>errors.As\<close>, results, maps as
  sorted association lists, 64-bit wrap-around, the interfaces \<open>codec\<close> and \<open>strict_weak_order\<close>.
  \<open>GoStrings\<close>, \<open>GoBase64\<close>, \<open>GoUTF8\<close>, \<open>GoJson\<close>, \<open>GoJsonRoundtrip\<close>, \<open>GoDecode\<close>, \<open>JsonUtf8\<close>, \<open>GoOS\<close>
  and \<open>GoNet\<close> are the parts of the library the program uses, executable: strings and numbers, base64,
  the JSON printer and parser (the parser takes fuel, twice the length of the text plus one, which
  \<open>GoJsonRoundtrip\<close> shows to be enough for every text), struct decoding, files with refusals
  and full disks, lexical paths, host and port, IP literals.

  \<^bold>\<open>The components.\<close>
  \<^item> \<open>Inventory\<close> (\<open>internal/inventory/inventory.go\<close>): the data, \<open>Load\<close>, \<open>Validate\<close>, keys, the merge of
    partial updates, the selections; \<open>InventoryDiff\<close> (\<open>diff.go\<close>): \<open>Compare\<close>, as the mirror of itself and
    as equality of what it looks at.
  \<^item> \<open>Pinning\<close> (\<open>internal/pinning\<close>): the pin store and its verifier, written over the locale \<open>pin_book\<close>
    and interpreted on the store; which handshakes are accepted, that pins stick, that they survive a
    restart, and the race of two first handshakes.
  \<^item> \<open>Version\<close>, \<open>Identity\<close>, \<open>Directory\<close>, \<open>Client\<close>, \<open>Session\<close>, \<open>Refresh\<close> (\<open>internal/control\<close>): the version
    floor as a linear order, the identity file, the two envelopes of a directory, the signed request
    and the sealed response, ticket approval, and the session that combines them. \<open>Session\<close> holds the
    operations, what every step of a session keeps (\<open>evolves\<close>) and sends (\<open>within\<close>), and the locale
    \<open>session_invariant\<close>; \<open>Refresh\<close> interprets it and proves the properties. \<open>StoredDoc\<close> is the contract
    of a document kept in a file.
  \<^item> \<open>Resolver\<close> (\<open>internal/resolver\<close>) and \<open>Transport\<close> (\<open>internal/control/transport.go\<close>): DNS over HTTPS
    behind the locale \<open>endpoint_resolver\<close>, and the client that dials through it, offers ECH, retries
    once with a server's new configuration and checks pins.
  \<^item> \<open>Xcfg\<close>, \<open>XcfgProofs\<close> (\<open>internal/xcfg\<close>): options, defaults and the whole rendered document; the
    proofs read the text back with the JSON parser.
  \<^item> \<open>Probe\<close>, \<open>Engine\<close>, \<open>Supervisor\<close> (\<open>internal/probe\<close>, \<open>engine\<close>, \<open>supervisor\<close>): ranking under any
    interleaving of the probes, the engine as a step relation with its reachable states, and the
    resolution of a plan.
  \<^item> \<open>Rules\<close> (\<open>internal/rules\<close>): downloads, digests and retries. \<open>Paths\<close> (\<open>internal/paths\<close>): where files
    live. \<open>Updater\<close> (\<open>internal/updater\<close>): the polling loop, using \<open>session_invariant\<close> again. \<open>Console\<close>
    (\<open>internal/console\<close>): every command and the loop, with the updater's installs as a schedule.
  \<^item> \<open>MainProgram\<close> (\<open>main.go\<close>): the command line and the composition of all of it; its properties span
    components, from the flags to a connection and from a refresh to the next start.

  \<^bold>\<open>State and concurrency.\<close> Every operation takes its state and returns it with its result. A method
  that holds a mutex is one step; where two steps of different goroutines can interleave and it
  matters, the interleaving is explicit: the two halves of the pin verifier, the order in which
  probes finish, the inventories installed between two reads of the console. Ticks, lines of input
  and the end of a context are lists of events; a loop over such a list has returned when its result
  says so and is otherwise still waiting.

  \<^bold>\<open>Bounds.\<close> Integers wrap at 64 bits where the code's sums and products can leave them. Apart from the
  JSON parser no recursion uses fuel: loops run over lists or a count of attempts, and the general
  recursions (the scan for links, the comparison of versions, quoting, UTF-8, IPv6 fields) come with
  a measure.

  \<^bold>\<open>Parameters.\<close> What is not in the repository is an argument: randomness, X25519, HPKE, Ed25519, SHA-256,
  \<open>url.Parse\<close>, HTTP exchanges, TLS handshakes, the DNS wire format, the operating system's dialer, the
  clock, xray-core, \<open>strings.EqualFold\<close>, \<open>flag.Parse\<close>. Laws they are assumed to keep are hypotheses
  of the theorems that need them, and every theorem with a hypothesis has a witness at a concrete
  instance.

  \<^bold>\<open>Not modelled.\<close> Files are named by their text, so that two names of one file are different files.
  \<open>strings.ToLower\<close> is exact on ASCII and the two letters with an ASCII lower case. Contexts appear as
  the errors or events they cause; time-outs are part of the parameters. The control client's HTTP
  and the handshakes under it are separate: what a connection does to the pin store is in \<open>Transport\<close>,
  not in the session's world. Beside a running console the updater appears only through what it
  installs, although both use one session without a lock. Output is its format and arguments, without
  column alignment. \<open>log.Fatalf\<close>, signals, the npm launcher, the scripts under \<open>tools\<close> and \<open>sweep\<close>, the
  patches of xray-core and the tests are left out.
\<close>

end
